theory Spec2Isabelle
  imports Complex_Main
begin

section \<open>Data model of the drawing context\<close>

text \<open>
  The development follows \<^verbatim>\<open>nanovgo.go\<close>. Values of Go's \<^verbatim>\<open>float32\<close> are
  idealised as real numbers: rounding, infinities and NaN are not represented. Where a
  float operation of the source can leave the finite numbers (a division by a divisor
  that may be zero), the model stops with \<open>NonFinite\<close> instead of using HOL's
  \<open>x / 0 = 0\<close>; the one exception is the tangent distance of \<^verbatim>\<open>ArcTo\<close>, whose
  infinities are kept because the source tests them. A Go panic (index out of range, nil dereference, an explicit
  \<^verbatim>\<open>panic\<close>) is the value \<open>Panic\<close>.
\<close>

datatype failure = Panic | NonFinite

type_synonym 'a result = "failure + 'a"

definition bind :: "'a result \<Rightarrow> ('a \<Rightarrow> 'b result) \<Rightarrow> 'b result" where
  "bind r f = (case r of Inl e \<Rightarrow> Inl e | Inr v \<Rightarrow> f v)"

text \<open>\<^verbatim>\<open>type TransformMatrix [6]float32\<close>: the six entries, by index.\<close>

record TransformMatrix =
  t0 :: real
  t1 :: real
  t2 :: real
  t3 :: real
  t4 :: real
  t5 :: real

record Color =
  R :: real
  G :: real
  B :: real
  A :: real

text \<open>
  The struct declarations are not part of \<^verbatim>\<open>nanovgo.go\<close>; the records hold the
  fields that file reads and writes (for \<open>Paint\<close>, the fields of the data model). The
  transform of a paint and of a scissor is called \<^verbatim>\<open>xform\<close> in the source, as the
  one of the state is; here they are \<open>paint_xform\<close> and \<open>scissor_xform\<close>, and the
  other scalar fields of a paint carry the prefix \<open>paint_\<close> too.
\<close>

record Paint =
  paint_xform :: TransformMatrix
  paint_extent :: "real \<times> real"
  paint_radius :: real
  paint_feather :: real
  innerColor :: Color
  outerColor :: Color
  image :: int

record nvgScissor =
  scissor_xform :: TransformMatrix
  extent :: "real \<times> real"

datatype LineCap = Butt | Round | Square | Bevel | Miter

record nvgState =
  fill :: Paint
  stroke :: Paint
  strokeWidth :: real
  miterLimit :: real
  lineJoin :: LineCap
  lineCap :: LineCap
  alpha :: real
  xform :: TransformMatrix
  scissor :: nvgScissor
  fontSize :: real
  letterSpacing :: real
  lineHeight :: real
  fontBlur :: real
  textAlign :: int
  fontID :: int

record nvgVertex =
  vx :: real
  vy :: real
  vu :: real
  vv :: real

text \<open>The fields of a point are \<^verbatim>\<open>x\<close>, \<^verbatim>\<open>y\<close>, \<^verbatim>\<open>dx\<close>, \<^verbatim>\<open>dy\<close>, \<^verbatim>\<open>len\<close>,
  \<^verbatim>\<open>dmx\<close>, \<^verbatim>\<open>dmy\<close> and \<^verbatim>\<open>flags\<close> in the source; they carry the prefix \<open>pt_\<close>
  here, which leaves the short names free for variables.\<close>

record nvgPoint =
  pt_x :: real
  pt_y :: real
  pt_dx :: real
  pt_dy :: real
  pt_len :: real
  pt_dmx :: real
  pt_dmy :: real
  pt_flags :: nat

text \<open>\<^verbatim>\<open>type Winding int\<close>; a path stores the integer it was given.\<close>

type_synonym Winding = int

record nvgPath =
  first :: int
  count :: int
  closed :: bool
  nbevel :: int
  fills :: "nvgVertex list"
  strokes :: "nvgVertex list"
  winding :: Winding
  convex :: bool

record nvgPathCache =
  points :: "nvgPoint list"
  paths :: "nvgPath list"
  vertexes :: "nvgVertex list"
  bounds :: "real \<times> real \<times> real \<times> real"

text \<open>
  The context. Of \<^verbatim>\<open>params\<close> (the render backend) the model keeps the answer of
  \<^verbatim>\<open>edgeAntiAlias()\<close>; the font fields play no part in path handling and are left
  out.
\<close>

record Context =
  edgeAntiAlias :: bool
  commands :: "real list"
  commandX :: real
  commandY :: real
  states :: "nvgState list"
  cache :: nvgPathCache
  tessTol :: real
  distTol :: real
  fringeWidth :: real
  devicePxRatio :: real
  drawCallCount :: int
  fillTriCount :: int
  strokeTriCount :: int
  textTriCount :: int

section \<open>The state stack\<close>

definition zeroMatrix :: TransformMatrix where
  "zeroMatrix = \<lparr>t0 = 0, t1 = 0, t2 = 0, t3 = 0, t4 = 0, t5 = 0\<rparr>"

definition zeroColor :: Color where
  "zeroColor = \<lparr>R = 0, G = 0, B = 0, A = 0\<rparr>"

definition zeroPaint :: Paint where
  "zeroPaint = \<lparr>paint_xform = zeroMatrix, paint_extent = (0, 0), paint_radius = 0, paint_feather = 0,
     innerColor = zeroColor, outerColor = zeroColor, image = 0\<rparr>"

text \<open>\<^verbatim>\<open>nvgState{}\<close>: Go's zero value of the struct.\<close>

definition zeroState :: nvgState where
  "zeroState = \<lparr>fill = zeroPaint, stroke = zeroPaint, strokeWidth = 0, miterLimit = 0,
     lineJoin = Butt, lineCap = Butt, alpha = 0, xform = zeroMatrix,
     scissor = \<lparr>scissor_xform = zeroMatrix, extent = (0, 0)\<rparr>,
     fontSize = 0, letterSpacing = 0, lineHeight = 0, fontBlur = 0, textAlign = 0,
     fontID = 0\<rparr>"

text \<open>
  \<^verbatim>\<open>Save\<close>. The constant \<^verbatim>\<open>nvgMaxStates\<close> is declared outside
  \<^verbatim>\<open>nanovgo.go\<close> and is a parameter here.
\<close>

definition Save :: "nat \<Rightarrow> Context \<Rightarrow> Context" where
  "Save nvgMaxStates ctx =
    (if length (states ctx) \<ge> nvgMaxStates then ctx
     else if length (states ctx) > 0
       then ctx\<lparr>states := states ctx @ [states ctx ! (length (states ctx) - 1)]\<rparr>
       else ctx\<lparr>states := states ctx @ [zeroState]\<rparr>)"

definition Restore :: "Context \<Rightarrow> Context" where
  "Restore ctx =
    (let nStates = length (states ctx) in
     if nStates > 1 then ctx\<lparr>states := take (nStates - 1) (states ctx)\<rparr> else ctx)"

section \<open>Recording path commands\<close>

text \<open>
  Modelled from the spec: the opcode constants \<^verbatim>\<open>nvgMOVETO\<close> ... \<^verbatim>\<open>nvgWINDING\<close> and
  the winding constants \<^verbatim>\<open>Solid\<close>, \<^verbatim>\<open>Hole\<close> are declared outside \<^verbatim>\<open>nanovgo.go\<close>.
  The opcodes are numbered in the order of the data model (MoveTo, LineTo, BezierTo,
  ClosePath, SetWinding); only their being distinct matters below.
\<close>

definition nvgMOVETO :: int where "nvgMOVETO = 0"
definition nvgLINETO :: int where "nvgLINETO = 1"
definition nvgBEZIERTO :: int where "nvgBEZIERTO = 2"
definition nvgCLOSE :: int where "nvgCLOSE = 3"
definition nvgWINDING :: int where "nvgWINDING = 4"

definition Solid :: Winding where "Solid = 1"
definition Hole :: Winding where "Hole = 2"

text \<open>Go's conversion of a float to an integer type truncates towards zero.\<close>

definition toInt :: "real \<Rightarrow> int" where
  "toInt v = (if v \<ge> 0 then \<lfloor>v\<rfloor> else \<lceil>v\<rceil>)"

text \<open>
  Modelled from the spec: \<^verbatim>\<open>TransformPoint\<close>, \<^verbatim>\<open>Multiply\<close>, \<^verbatim>\<open>PreMultiply\<close> and the
  matrix constructors are methods of \<^verbatim>\<open>TransformMatrix\<close> defined outside
  \<^verbatim>\<open>nanovgo.go\<close>. The six scalars (a,b,c,d,e,f) stand for the affine matrix
  [[a,c,e],[b,d,f],[0,0,1]]; a point is mapped by it, and a new transform is applied by
  premultiplying the current matrix.
\<close>

definition TransformPoint :: "TransformMatrix \<Rightarrow> real \<Rightarrow> real \<Rightarrow> real \<times> real" where
  "TransformPoint t sx sy = (sx * t0 t + sy * t2 t + t4 t, sx * t1 t + sy * t3 t + t5 t)"

definition Multiply :: "TransformMatrix \<Rightarrow> TransformMatrix \<Rightarrow> TransformMatrix" where
  "Multiply t s =
    \<lparr>t0 = t0 t * t0 s + t1 t * t2 s,
     t1 = t0 t * t1 s + t1 t * t3 s,
     t2 = t2 t * t0 s + t3 t * t2 s,
     t3 = t2 t * t1 s + t3 t * t3 s,
     t4 = t4 t * t0 s + t5 t * t2 s + t4 s,
     t5 = t4 t * t1 s + t5 t * t3 s + t5 s\<rparr>"

definition PreMultiply :: "TransformMatrix \<Rightarrow> TransformMatrix \<Rightarrow> TransformMatrix" where
  "PreMultiply t s = Multiply s t"

definition IdentityMatrix :: TransformMatrix where
  "IdentityMatrix = \<lparr>t0 = 1, t1 = 0, t2 = 0, t3 = 1, t4 = 0, t5 = 0\<rparr>"

definition TranslateMatrix :: "real \<Rightarrow> real \<Rightarrow> TransformMatrix" where
  "TranslateMatrix tx ty = \<lparr>t0 = 1, t1 = 0, t2 = 0, t3 = 1, t4 = tx, t5 = ty\<rparr>"

definition ScaleMatrix :: "real \<Rightarrow> real \<Rightarrow> TransformMatrix" where
  "ScaleMatrix sx sy = \<lparr>t0 = sx, t1 = 0, t2 = 0, t3 = sy, t4 = 0, t5 = 0\<rparr>"

definition RotateMatrix :: "real \<Rightarrow> TransformMatrix" where
  "RotateMatrix a = \<lparr>t0 = cos a, t1 = sin a, t2 = - sin a, t3 = cos a, t4 = 0, t5 = 0\<rparr>"

text \<open>
  The loop of \<^verbatim>\<open>appendCommand\<close> over \<^verbatim>\<open>vals\<close>, from index \<open>i\<close> on: the argument
  is the part of \<^verbatim>\<open>vals\<close> not yet visited, the result the same part after the
  in-place updates. Reading an index past the end panics.
\<close>

fun xformVals :: "TransformMatrix \<Rightarrow> real list \<Rightarrow> real list result" where
  "xformVals xForm [] = Inr []"
| "xformVals xForm (c # rest) =
    (if toInt c = nvgMOVETO then
       (case rest of
          a # b # r \<Rightarrow>
            bind (xformVals xForm r)
              (\<lambda>r'. Inr (c # fst (TransformPoint xForm a b) # snd (TransformPoint xForm a b) # r'))
        | _ \<Rightarrow> Inl Panic)
     else if toInt c = nvgLINETO then
       (case rest of
          a # b # r \<Rightarrow>
            bind (xformVals xForm r)
              (\<lambda>r'. Inr (c # fst (TransformPoint xForm a b) # snd (TransformPoint xForm a b) # r'))
        | _ \<Rightarrow> Inl Panic)
     else if toInt c = nvgBEZIERTO then
       (case rest of
          a1 # b1 # a2 # b2 # a3 # b3 # r \<Rightarrow>
            bind (xformVals xForm r)
              (\<lambda>r'. Inr (c # fst (TransformPoint xForm a1 b1) # snd (TransformPoint xForm a1 b1)
                           # fst (TransformPoint xForm a2 b2) # snd (TransformPoint xForm a2 b2)
                           # fst (TransformPoint xForm a3 b3) # snd (TransformPoint xForm a3 b3)
                           # r'))
        | _ \<Rightarrow> Inl Panic)
     else if toInt c = nvgCLOSE then
       bind (xformVals xForm rest) (\<lambda>r'. Inr (c # r'))
     else if toInt c = nvgWINDING then
       (case rest of
          [] \<Rightarrow> Inr [c]
        | w # r \<Rightarrow> bind (xformVals xForm r) (\<lambda>r'. Inr (c # w # r')))
     else bind (xformVals xForm rest) (\<lambda>r'. Inr (c # r')))"

text \<open>\<^verbatim>\<open>getState\<close> indexes \<^verbatim>\<open>ctx.states[len(ctx.states)-1]\<close>: it panics on an empty
  stack.\<close>

definition getState :: "Context \<Rightarrow> nvgState result" where
  "getState ctx = (if states ctx = [] then Inl Panic else Inr (last (states ctx)))"

text \<open>Writing through the pointer that \<^verbatim>\<open>getState\<close> returns.\<close>

definition setState :: "Context \<Rightarrow> nvgState \<Rightarrow> Context" where
  "setState ctx st = ctx\<lparr>states := (states ctx)[length (states ctx) - 1 := st]\<rparr>"

definition appendCommand :: "Context \<Rightarrow> real list \<Rightarrow> Context result" where
  "appendCommand ctx vals =
    bind (getState ctx) (\<lambda>state.
      let xForm = xform state in
      if vals = [] then Inl Panic
      else
        bind (if toInt (vals ! 0) \<noteq> nvgCLOSE \<and> toInt (vals ! 0) \<noteq> nvgWINDING
              then (if length vals < 2 then Inl Panic
                    else Inr (ctx\<lparr>commandX := vals ! (length vals - 2),
                                  commandY := vals ! (length vals - 1)\<rparr>))
              else Inr ctx) (\<lambda>ctx1.
        bind (xformVals xForm vals) (\<lambda>vals'.
          Inr (ctx1\<lparr>commands := commands ctx1 @ vals'\<rparr>))))"

definition MoveTo :: "Context \<Rightarrow> real \<Rightarrow> real \<Rightarrow> Context result" where
  "MoveTo ctx px py = appendCommand ctx [of_int nvgMOVETO, px, py]"

definition LineTo :: "Context \<Rightarrow> real \<Rightarrow> real \<Rightarrow> Context result" where
  "LineTo ctx px py = appendCommand ctx [of_int nvgLINETO, px, py]"

definition BezierTo ::
  "Context \<Rightarrow> real \<Rightarrow> real \<Rightarrow> real \<Rightarrow> real \<Rightarrow> real \<Rightarrow> real \<Rightarrow> Context result" where
  "BezierTo ctx c1x c1y c2x c2y px py =
     appendCommand ctx [of_int nvgBEZIERTO, c1x, c1y, c2x, c2y, px, py]"

definition ClosePath :: "Context \<Rightarrow> Context result" where
  "ClosePath ctx = appendCommand ctx [of_int nvgCLOSE]"

definition PathWinding :: "Context \<Rightarrow> Winding \<Rightarrow> Context result" where
  "PathWinding ctx w = appendCommand ctx [of_int nvgWINDING, of_int w]"

text \<open>The calls that change the transform of the current state.\<close>

definition SetTransform :: "Context \<Rightarrow> TransformMatrix \<Rightarrow> Context result" where
  "SetTransform ctx t =
     bind (getState ctx) (\<lambda>state. Inr (setState ctx (state\<lparr>xform := PreMultiply (xform state) t\<rparr>)))"

definition ResetTransform :: "Context \<Rightarrow> Context result" where
  "ResetTransform ctx =
     bind (getState ctx) (\<lambda>state. Inr (setState ctx (state\<lparr>xform := IdentityMatrix\<rparr>)))"

definition Translate :: "Context \<Rightarrow> real \<Rightarrow> real \<Rightarrow> Context result" where
  "Translate ctx tx ty =
     bind (getState ctx) (\<lambda>state.
       Inr (setState ctx (state\<lparr>xform := PreMultiply (xform state) (TranslateMatrix tx ty)\<rparr>)))"

definition Rotate :: "Context \<Rightarrow> real \<Rightarrow> Context result" where
  "Rotate ctx angle =
     bind (getState ctx) (\<lambda>state.
       Inr (setState ctx (state\<lparr>xform := PreMultiply (xform state) (RotateMatrix angle)\<rparr>)))"

definition Scale :: "Context \<Rightarrow> real \<Rightarrow> real \<Rightarrow> Context result" where
  "Scale ctx sx sy =
     bind (getState ctx) (\<lambda>state.
       Inr (setState ctx (state\<lparr>xform := PreMultiply (xform state) (ScaleMatrix sx sy)\<rparr>)))"

text \<open>
  The commands as the data model describes them, for comparison with the flat buffer:
  a tagged record per command, its encoding as floats, and the transform of its position
  operands.
\<close>

datatype pathCommand =
    CmdMoveTo real real
  | CmdLineTo real real
  | CmdBezierTo real real real real real real
  | CmdClose
  | CmdWinding int

fun encodeCommand :: "pathCommand \<Rightarrow> real list" where
  "encodeCommand (CmdMoveTo px py) = [of_int nvgMOVETO, px, py]"
| "encodeCommand (CmdLineTo px py) = [of_int nvgLINETO, px, py]"
| "encodeCommand (CmdBezierTo c1x c1y c2x c2y px py) =
     [of_int nvgBEZIERTO, c1x, c1y, c2x, c2y, px, py]"
| "encodeCommand CmdClose = [of_int nvgCLOSE]"
| "encodeCommand (CmdWinding w) = [of_int nvgWINDING, of_int w]"

definition encodeCommands :: "pathCommand list \<Rightarrow> real list" where
  "encodeCommands cs = concat (map encodeCommand cs)"

fun transformCommand :: "TransformMatrix \<Rightarrow> pathCommand \<Rightarrow> pathCommand" where
  "transformCommand t (CmdMoveTo px py) =
     CmdMoveTo (fst (TransformPoint t px py)) (snd (TransformPoint t px py))"
| "transformCommand t (CmdLineTo px py) =
     CmdLineTo (fst (TransformPoint t px py)) (snd (TransformPoint t px py))"
| "transformCommand t (CmdBezierTo c1x c1y c2x c2y px py) =
     CmdBezierTo (fst (TransformPoint t c1x c1y)) (snd (TransformPoint t c1x c1y))
                 (fst (TransformPoint t c2x c2y)) (snd (TransformPoint t c2x c2y))
                 (fst (TransformPoint t px py)) (snd (TransformPoint t px py))"
| "transformCommand t CmdClose = CmdClose"
| "transformCommand t (CmdWinding w) = CmdWinding w"

text \<open>What a call leaves in the command buffer, if it returns.\<close>

definition resultCommands :: "Context result \<Rightarrow> real list option" where
  "resultCommands r = (case r of Inl e \<Rightarrow> None | Inr c \<Rightarrow> Some (commands c))"

text \<open>A context as \<^verbatim>\<open>createInternal\<close> leaves it after its \<^verbatim>\<open>Save()\<close>, with empty buffers
  and a device pixel ratio of one; used to run the functions on concrete inputs.\<close>

definition emptyCache :: nvgPathCache where
  "emptyCache = \<lparr>points = [], paths = [], vertexes = [], bounds = (0, 0, 0, 0)\<rparr>"

definition ctx0 :: Context where
  "ctx0 = \<lparr>edgeAntiAlias = True, commands = [], commandX = 0, commandY = 0,
     states = [zeroState], cache = emptyCache, tessTol = 1 / 4, distTol = 1 / 100,
     fringeWidth = 1, devicePxRatio = 1, drawCallCount = 0, fillTriCount = 0,
     strokeTriCount = 0, textTriCount = 0\<rparr>"

text \<open>The same context under a translation by (10, 20).\<close>

definition ctxT :: Context where
  "ctxT = ctx0\<lparr>states := [zeroState\<lparr>xform := TranslateMatrix 10 20\<rparr>]\<rparr>"

section \<open>Arcs\<close>

text \<open>
  Modelled from the spec: the numeric helpers \<^verbatim>\<open>absF\<close>, \<^verbatim>\<open>minF\<close>, \<^verbatim>\<open>maxF\<close>,
  \<^verbatim>\<open>clampF\<close>, \<^verbatim>\<open>clampI\<close>, \<^verbatim>\<open>sinCosF\<close>, the constant \<^verbatim>\<open>PI\<close> and the type
  \<^verbatim>\<open>Direction\<close> with its two constants are declared outside \<^verbatim>\<open>nanovgo.go\<close>. They
  are the absolute value, minimum, maximum, clamping of a value to an interval, the pair
  (sine, cosine) and the number pi; a direction is an integer, as a winding is.
\<close>

definition absF :: "real \<Rightarrow> real" where
  "absF a = (if a > 0 then a else - a)"

definition minF :: "real \<Rightarrow> real \<Rightarrow> real" where
  "minF a b = (if a < b then a else b)"

definition maxF :: "real \<Rightarrow> real \<Rightarrow> real" where
  "maxF a b = (if a > b then a else b)"

definition clampF :: "real \<Rightarrow> real \<Rightarrow> real \<Rightarrow> real" where
  "clampF a lo hi = (if a < lo then lo else if a > hi then hi else a)"

definition clampI :: "int \<Rightarrow> int \<Rightarrow> int \<Rightarrow> int" where
  "clampI a lo hi = (if a < lo then lo else if a > hi then hi else a)"

definition sinCosF :: "real \<Rightarrow> real \<times> real" where
  "sinCosF a = (sin a, cos a)"

definition PI :: real where
  "PI = pi"

type_synonym Direction = int

definition CounterClockwise :: Direction where "CounterClockwise = 1"
definition Clockwise :: Direction where "Clockwise = 2"

text \<open>The two loops of \<^verbatim>\<open>Arc\<close> that bring the sweep back into one turn:
  \<^verbatim>\<open>for da < 0.0 { da += PI * 2 }\<close> and \<^verbatim>\<open>for da > 0.0 { da -= PI * 2 }\<close>.\<close>

function arcWrapUp :: "real \<Rightarrow> real" where
  "arcWrapUp da = (if da < 0 then arcWrapUp (da + PI * 2) else da)"
  by pat_completeness auto
termination
proof (relation "measure (\<lambda>da. nat \<lceil>- da / (PI * 2)\<rceil>)")
  show "wf (measure (\<lambda>da. nat \<lceil>- da / (PI * 2)\<rceil>))" by simp
next
  fix da :: real
  assume neg: "da < 0"
  have pos: "PI * 2 > 0" by (simp add: PI_def)
  have eq: "- (da + PI * 2) / (PI * 2) = - da / (PI * 2) - 1"
    using pos by (simp add: field_simps)
  have "- da / (PI * 2) > 0" using neg pos by (intro divide_pos_pos) simp_all
  then have c1: "\<lceil>- da / (PI * 2)\<rceil> \<ge> 1" by linarith
  have c2: "\<lceil>- (da + PI * 2) / (PI * 2)\<rceil> = \<lceil>- da / (PI * 2)\<rceil> - 1"
    by (simp only: eq ceiling_diff_one)
  from c1 c2 have "nat \<lceil>- (da + PI * 2) / (PI * 2)\<rceil> < nat \<lceil>- da / (PI * 2)\<rceil>"
    by linarith
  then show "(da + PI * 2, da) \<in> measure (\<lambda>da. nat \<lceil>- da / (PI * 2)\<rceil>)"
    by (simp only: in_measure)
qed

function arcWrapDown :: "real \<Rightarrow> real" where
  "arcWrapDown da = (if da > 0 then arcWrapDown (da - PI * 2) else da)"
  by pat_completeness auto
termination
proof (relation "measure (\<lambda>da. nat \<lceil>da / (PI * 2)\<rceil>)")
  show "wf (measure (\<lambda>da. nat \<lceil>da / (PI * 2)\<rceil>))" by simp
next
  fix da :: real
  assume posd: "da > 0"
  have pos: "PI * 2 > 0" by (simp add: PI_def)
  have eq: "(da - PI * 2) / (PI * 2) = da / (PI * 2) - 1"
    using pos by (simp add: field_simps)
  have "da / (PI * 2) > 0" using posd pos by (intro divide_pos_pos) simp_all
  then have c1: "\<lceil>da / (PI * 2)\<rceil> \<ge> 1" by linarith
  have c2: "\<lceil>(da - PI * 2) / (PI * 2)\<rceil> = \<lceil>da / (PI * 2)\<rceil> - 1"
    by (simp only: eq ceiling_diff_one)
  from c1 c2 have "nat \<lceil>(da - PI * 2) / (PI * 2)\<rceil> < nat \<lceil>da / (PI * 2)\<rceil>"
    by linarith
  then show "(da - PI * 2, da) \<in> measure (\<lambda>da. nat \<lceil>da / (PI * 2)\<rceil>)"
    by (simp only: in_measure)
qed

text \<open>The block \<^verbatim>\<open>// Clamp angles\<close> of \<^verbatim>\<open>Arc\<close>: the sweep \<open>da\<close> from \<open>a1 - a0\<close>.\<close>

definition arcClampAngles :: "real \<Rightarrow> real \<Rightarrow> Direction \<Rightarrow> real" where
  "arcClampAngles a0 a1 dir =
    (let da = a1 - a0 in
     if dir = Clockwise then
       (if absF da \<ge> PI * 2 then PI * 2 else arcWrapUp da)
     else
       (if absF da \<ge> PI * 2 then - PI * 2 else arcWrapDown da))"

text \<open>\<^verbatim>\<open>nDivs := clampI(int(absF(da)/(PI*0.5)+0.5), 1, 5)\<close>.\<close>

definition arcDivs :: "real \<Rightarrow> int" where
  "arcDivs da = clampI (toInt (absF da / (PI * 0.5) + 0.5)) 1 5"

text \<open>The loop \<^verbatim>\<open>for i := 0; i <= nDivs; i++\<close>, with the variables it carries from one
  round to the next (\<open>px\<close>, \<open>py\<close>, \<open>pTanX\<close>, \<open>pTanY\<close>) and the values collected so far.\<close>

function arcLoop ::
  "real \<Rightarrow> real \<Rightarrow> real \<Rightarrow> real \<Rightarrow> real \<Rightarrow> real \<Rightarrow> int \<Rightarrow> int \<Rightarrow> int \<Rightarrow>
   real \<times> real \<times> real \<times> real \<Rightarrow> real list \<Rightarrow> real list" where
  "arcLoop cx cy r a0 da kappa move nDivs i prev values =
    (if i \<le> nDivs then
       (let (px, py, pTanX, pTanY) = prev;
            a = a0 + da * of_int i / of_int nDivs;
            (dy, dx) = sinCosF a;
            x = cx + dx * r;
            y = cy + dy * r;
            tanX = - dy * r * kappa;
            tanY = dx * r * kappa;
            values' = (if i = 0 then values @ [of_int move, x, y]
                       else values @ [of_int nvgBEZIERTO, px + pTanX, py + pTanY,
                                      x - tanX, y - tanY, x, y])
        in arcLoop cx cy r a0 da kappa move nDivs (i + 1) (x, y, tanX, tanY) values')
     else values)"
  by pat_completeness auto
termination
  by (relation "measure (\<lambda>(cx, cy, r, a0, da, kappa, move, nDivs, i, prev, values).
        nat (nDivs + 1 - i))") auto

text \<open>
  \<^verbatim>\<open>Arc\<close>. The quotient \<^verbatim>\<open>(1.0 - cos) / sin\<close> has the divisor zero when the sweep
  is zero; a float then yields NaN, which the model reports as \<open>NonFinite\<close>. The other
  divisors are constants or \<open>nDivs\<close>, which is at least one.
\<close>

definition Arc ::
  "Context \<Rightarrow> real \<Rightarrow> real \<Rightarrow> real \<Rightarrow> real \<Rightarrow> real \<Rightarrow> Direction \<Rightarrow> Context result" where
  "Arc ctx cx cy r a0 a1 dir =
    (let move = (if length (commands ctx) > 0 then nvgLINETO else nvgMOVETO);
         da = arcClampAngles a0 a1 dir;
         nDivs = arcDivs da;
         hda = da / of_int nDivs / 2;
         (sn, cs) = sinCosF hda
     in if sn = 0 then Inl NonFinite
        else
          (let kappa0 = absF (4 / 3 * (1 - cs) / sn);
               kappa = (if dir = CounterClockwise then - kappa0 else kappa0)
           in appendCommand ctx
                (arcLoop cx cy r a0 da kappa move nDivs 0 (0, 0, 0, 0) [])))"

text \<open>The context of \<open>ctx0\<close> under the identity transform.\<close>

definition ctxI :: Context where
  "ctxI = ctx0\<lparr>states := [zeroState\<lparr>xform := IdentityMatrix\<rparr>]\<rparr>"

text \<open>The opcodes of a command buffer, read the way \<^verbatim>\<open>flattenPaths\<close> walks it: three
  floats for a MoveTo or LineTo, seven for a BezierTo, one for a ClosePath, two for a
  SetWinding, one for anything else.\<close>

fun commandOpcodes :: "real list \<Rightarrow> int list" where
  "commandOpcodes [] = []"
| "commandOpcodes (c # rest) =
    (if toInt c = nvgMOVETO then nvgMOVETO # commandOpcodes (drop 2 rest)
     else if toInt c = nvgLINETO then nvgLINETO # commandOpcodes (drop 2 rest)
     else if toInt c = nvgBEZIERTO then nvgBEZIERTO # commandOpcodes (drop 6 rest)
     else if toInt c = nvgCLOSE then nvgCLOSE # commandOpcodes rest
     else if toInt c = nvgWINDING then nvgWINDING # commandOpcodes (drop 1 rest)
     else commandOpcodes rest)"

section \<open>Arcs through a corner\<close>

text \<open>
  The geometric helpers \<^verbatim>\<open>ptEquals\<close>, \<^verbatim>\<open>distPtSeg\<close>, \<^verbatim>\<open>normalize\<close>, \<^verbatim>\<open>cross\<close>,
  \<^verbatim>\<open>acosF\<close>, \<^verbatim>\<open>tanF\<close> and \<^verbatim>\<open>atan2F\<close> are defined outside \<^verbatim>\<open>nanovgo.go\<close>. They
  are parameters of the model, collected in a record, so that what is proved holds
  whatever they compute. \<^verbatim>\<open>normalize\<close> returns the length and the two scaled
  coordinates.
\<close>

record geometry =
  ptEquals :: "real \<Rightarrow> real \<Rightarrow> real \<Rightarrow> real \<Rightarrow> real \<Rightarrow> bool"
  distPtSeg :: "real \<Rightarrow> real \<Rightarrow> real \<Rightarrow> real \<Rightarrow> real \<Rightarrow> real \<Rightarrow> real"
  normalize :: "real \<Rightarrow> real \<Rightarrow> real \<times> real \<times> real"
  cross :: "real \<Rightarrow> real \<Rightarrow> real \<Rightarrow> real \<Rightarrow> real"
  acosF :: "real \<Rightarrow> real"
  tanF :: "real \<Rightarrow> real"
  atan2F :: "real \<Rightarrow> real \<Rightarrow> real"

text \<open>The normalised directions of the two legs of the corner, as \<^verbatim>\<open>ArcTo\<close> computes
  them: \<open>(dx0, dy0)\<close> from \<open>(x1, y1)\<close> to the current point, \<open>(dx1, dy1)\<close> from
  \<open>(x1, y1)\<close> to \<open>(x2, y2)\<close>.\<close>

definition arcToLegs ::
  "geometry \<Rightarrow> real \<Rightarrow> real \<Rightarrow> real \<Rightarrow> real \<Rightarrow> real \<Rightarrow> real \<Rightarrow> real \<times> real \<times> real \<times> real" where
  "arcToLegs g x0 y0 x1 y1 x2 y2 =
    (let dx0 = x0 - x1;
         dy0 = y0 - y1;
         dx1 = x2 - x1;
         dy1 = y2 - y1;
         (d0, dx0, dy0) = normalize g dx0 dy0;
         (d1, dx1, dy1) = normalize g dx1 dy1
     in (dx0, dy0, dx1, dy1))"

text \<open>
  The quotient \<^verbatim>\<open>radius / tanF(a/2.0)\<close> of \<^verbatim>\<open>ArcTo\<close> is the one float of the
  model that keeps its non-finite values, since the test \<^verbatim>\<open>d > 10000.0\<close> that follows
  decides on them. A float division of finite operands gives a finite number when the
  divisor is not zero; by zero it gives plus or minus infinity, by the sign of the
  dividend, and NaN for zero by zero. (The divisor here is the tangent of half an arc
  cosine; a negative zero, which would change the sign of the infinity, is not
  represented.) Every comparison with NaN is false, and plus infinity is above every
  number.
\<close>

datatype quotient = Finite real | PosInf | NegInf | NaN

definition divF :: "real \<Rightarrow> real \<Rightarrow> quotient" where
  "divF a b =
    (if b \<noteq> 0 then Finite (a / b)
     else if a > 0 then PosInf else if a < 0 then NegInf else NaN)"

fun exceeds :: "quotient \<Rightarrow> real \<Rightarrow> bool" where
  "exceeds (Finite d) c = (d > c)"
| "exceeds PosInf c = True"
| "exceeds NegInf c = False"
| "exceeds NaN c = False"

text \<open>
  \<^verbatim>\<open>ArcTo\<close>. Where the tangent distance \<open>d\<close> is minus infinity or NaN, the test
  \<^verbatim>\<open>d > 10000.0\<close> fails and the source goes on to \<^verbatim>\<open>Arc\<close> with a centre that is
  not a finite number; there the model stops with \<open>NonFinite\<close>.
\<close>

definition ArcTo ::
  "geometry \<Rightarrow> Context \<Rightarrow> real \<Rightarrow> real \<Rightarrow> real \<Rightarrow> real \<Rightarrow> real \<Rightarrow> Context result" where
  "ArcTo g ctx x1 y1 x2 y2 radius =
    (if length (commands ctx) = 0 then Inr ctx
     else
       (let x0 = commandX ctx;
            y0 = commandY ctx
        in if ptEquals g x0 y0 x1 y1 (distTol ctx) \<or>
              ptEquals g x1 y1 x2 y2 (distTol ctx) \<or>
              distPtSeg g x1 y1 x0 y0 x2 y2 < distTol ctx * distTol ctx \<or>
              radius < distTol ctx
           then LineTo ctx x1 y1
           else
             (let (dx0, dy0, dx1, dy1) = arcToLegs g x0 y0 x1 y1 x2 y2;
                  a = acosF g (dx0 * dx1 + dy0 * dy1);
                  q = divF radius (tanF g (a / 2))
              in if exceeds q 10000 then LineTo ctx x1 y1
                 else
                   (case q of
                      Finite d \<Rightarrow>
                        (if cross g dx0 dy0 dx1 dy1 > 0 then
                           Arc ctx (x1 + dx0 * d + dy0 * radius)
                             (y1 + dy0 * d + - dx0 * radius)
                             radius (atan2F g dx0 (- dy0)) (atan2F g (- dx1) dy1) Clockwise
                         else
                           Arc ctx (x1 + dx0 * d + - dy0 * radius)
                             (y1 + dy0 * d + dx0 * radius)
                             radius (atan2F g (- dx0) dy0) (atan2F g dx1 (- dy1))
                             CounterClockwise)
                    | _ \<Rightarrow> Inl NonFinite))))"

text \<open>The tangent distance \<open>d\<close> of \<^verbatim>\<open>ArcTo\<close>.\<close>

definition arcToTangentDistance ::
  "geometry \<Rightarrow> Context \<Rightarrow> real \<Rightarrow> real \<Rightarrow> real \<Rightarrow> real \<Rightarrow> real \<Rightarrow> quotient" where
  "arcToTangentDistance g ctx x1 y1 x2 y2 radius =
    (let (dx0, dy0, dx1, dy1) = arcToLegs g (commandX ctx) (commandY ctx) x1 y1 x2 y2;
         a = acosF g (dx0 * dx1 + dy0 * dy1)
     in divF radius (tanF g (a / 2)))"

text \<open>The four tests of \<^verbatim>\<open>ArcTo\<close> under \<^verbatim>\<open>// Handle degenerate cases\<close>.\<close>

definition arcToDegenerate ::
  "geometry \<Rightarrow> Context \<Rightarrow> real \<Rightarrow> real \<Rightarrow> real \<Rightarrow> real \<Rightarrow> real \<Rightarrow> bool" where
  "arcToDegenerate g ctx x1 y1 x2 y2 radius =
    (ptEquals g (commandX ctx) (commandY ctx) x1 y1 (distTol ctx) \<or>
     ptEquals g x1 y1 x2 y2 (distTol ctx) \<or>
     distPtSeg g x1 y1 (commandX ctx) (commandY ctx) x2 y2 < distTol ctx * distTol ctx \<or>
     radius < distTol ctx)"

text \<open>
  The claim's words for three points that are collinear within a tolerance, read as: the
  point \<open>(x1, y1)\<close> is closer than the tolerance to the line through \<open>(x0, y0)\<close> and
  \<open>(x2, y2)\<close>. The distance is compared in its squared form, multiplied out, so that
  no division and no root is needed.
\<close>

definition collinearWithin ::
  "real \<Rightarrow> real \<Rightarrow> real \<Rightarrow> real \<Rightarrow> real \<Rightarrow> real \<Rightarrow> real \<Rightarrow> bool" where
  "collinearWithin x0 y0 x1 y1 x2 y2 tol =
    (let c = (x2 - x0) * (y1 - y0) - (y2 - y0) * (x1 - x0)
     in c * c < tol * tol * ((x2 - x0) * (x2 - x0) + (y2 - y0) * (y2 - y0)))"

text \<open>
  Modelled from the spec: the helpers \<^verbatim>\<open>ptEquals\<close>, \<^verbatim>\<open>distPtSeg\<close>, \<^verbatim>\<open>normalize\<close>,
  \<^verbatim>\<open>cross\<close>, \<^verbatim>\<open>acosF\<close>, \<^verbatim>\<open>tanF\<close> and \<^verbatim>\<open>atan2F\<close> are defined outside
  \<^verbatim>\<open>nanovgo.go\<close>. This instance of the geometric parameters is the Euclidean reading of
  their names and of the way \<^verbatim>\<open>ArcTo\<close> uses them: two points are equal within a
  tolerance when their squared distance is below the squared tolerance; \<^verbatim>\<open>distPtSeg\<close>
  is the squared distance of a point from the nearest point of a segment (the projection
  on the line, clamped to the segment); \<^verbatim>\<open>normalize\<close> scales a vector longer than
  \<open>1e-6\<close> to unit length and returns its length; then the cross product, arc cosine,
  tangent, and the angle of a vector.
\<close>

definition euclidPtEquals :: "real \<Rightarrow> real \<Rightarrow> real \<Rightarrow> real \<Rightarrow> real \<Rightarrow> bool" where
  "euclidPtEquals x1 y1 x2 y2 tol =
     ((x2 - x1) * (x2 - x1) + (y2 - y1) * (y2 - y1) < tol * tol)"

definition euclidDistPtSeg :: "real \<Rightarrow> real \<Rightarrow> real \<Rightarrow> real \<Rightarrow> real \<Rightarrow> real \<Rightarrow> real" where
  "euclidDistPtSeg px py ax ay bx by =
    (let pqx = bx - ax; pqy = by - ay;
         d = pqx * pqx + pqy * pqy;
         t0 = pqx * (px - ax) + pqy * (py - ay);
         t1 = (if d > 0 then t0 / d else t0);
         t = (if t1 < 0 then 0 else if t1 > 1 then 1 else t1);
         ex = ax + t * pqx - px;
         ey = ay + t * pqy - py
     in ex * ex + ey * ey)"

definition euclidNormalize :: "real \<Rightarrow> real \<Rightarrow> real \<times> real \<times> real" where
  "euclidNormalize ux uy =
    (let d = sqrt (ux * ux + uy * uy)
     in if d > 1 / 1000000 then (d, ux * (1 / d), uy * (1 / d)) else (d, ux, uy))"

definition euclidCross :: "real \<Rightarrow> real \<Rightarrow> real \<Rightarrow> real \<Rightarrow> real" where
  "euclidCross ax ay bx by = bx * ay - ax * by"

definition euclidAtan2 :: "real \<Rightarrow> real \<Rightarrow> real" where
  "euclidAtan2 b a =
    (if a > 0 then arctan (b / a)
     else if a < 0 \<and> b \<ge> 0 then arctan (b / a) + pi
     else if a < 0 then arctan (b / a) - pi
     else if b > 0 then pi / 2 else if b < 0 then - pi / 2 else 0)"

definition euclid :: geometry where
  "euclid = \<lparr>ptEquals = euclidPtEquals, distPtSeg = euclidDistPtSeg,
     normalize = euclidNormalize, cross = euclidCross, acosF = arccos, tanF = tan,
     atan2F = euclidAtan2\<rparr>"

text \<open>The identity-transform context after a \<^verbatim>\<open>MoveTo\<close> to \<open>(px, py)\<close>.\<close>

definition ctxAt :: "real \<Rightarrow> real \<Rightarrow> Context" where
  "ctxAt px py = ctxI\<lparr>commands := [of_int nvgMOVETO, px, py], commandX := px, commandY := py\<rparr>"

section \<open>Flattening the command buffer into the path cache\<close>

unbundle bit_operations_syntax

text \<open>
  Modelled from the spec: the methods of the path cache (\<^verbatim>\<open>clearPathCache\<close>,
  \<^verbatim>\<open>addPath\<close>, \<^verbatim>\<open>lastPath\<close>, \<^verbatim>\<open>lastPoint\<close>, \<^verbatim>\<open>addPoint\<close>, \<^verbatim>\<open>closePath\<close>,
  \<^verbatim>\<open>pathWinding\<close>, \<^verbatim>\<open>tesselateBezier\<close>), the functions \<^verbatim>\<open>polyArea\<close> and
  \<^verbatim>\<open>polyReverse\<close> and the point flag \<^verbatim>\<open>nvgPtCORNER\<close> are defined outside
  \<^verbatim>\<open>nanovgo.go\<close>. A path is an offset and a count into the shared point arena; a MoveTo
  starts a new path and adds its first point, a LineTo appends a point, a BezierTo appends
  the points of the subdivided curve, a ClosePath marks the current path closed, a
  SetWinding tags the current path; inserting a point skips a point closer to the
  previous one than the distance tolerance; the signed polygon area is computed and the
  point order reversed when its sign disagrees with the winding.
\<close>

definition nvgPtCORNER :: nat where "nvgPtCORNER = 1"

definition clearPathCache :: "nvgPathCache \<Rightarrow> nvgPathCache" where
  "clearPathCache c = c\<lparr>points := [], paths := []\<rparr>"

text \<open>A new path starts at the end of the arena, with no points, not closed, Solid.\<close>

definition addPath :: "nvgPathCache \<Rightarrow> nvgPathCache" where
  "addPath c =
     c\<lparr>paths := paths c @
        [\<lparr>first = int (length (points c)), count = 0, closed = False, nbevel = 0,
          fills = [], strokes = [], winding = Solid, convex = False\<rparr>]\<rparr>"

definition lastPath :: "nvgPathCache \<Rightarrow> nvgPath option" where
  "lastPath c = (if length (paths c) > 0 then Some (last (paths c)) else None)"

definition lastPoint :: "nvgPathCache \<Rightarrow> nvgPoint option" where
  "lastPoint c = (if length (points c) > 0 then Some (last (points c)) else None)"

text \<open>Writing through the pointer that \<^verbatim>\<open>lastPath\<close> returns.\<close>

definition setLastPath :: "nvgPathCache \<Rightarrow> nvgPath \<Rightarrow> nvgPathCache" where
  "setLastPath c p = c\<lparr>paths := (paths c)[length (paths c) - 1 := p]\<rparr>"

text \<open>
  \<^verbatim>\<open>addPoint\<close>: with no current path the method dereferences a nil pointer. A point
  within the tolerance of the last point of the current path only passes its flags on.
\<close>

definition addPoint ::
  "geometry \<Rightarrow> nvgPathCache \<Rightarrow> real \<Rightarrow> real \<Rightarrow> nat \<Rightarrow> real \<Rightarrow> nvgPathCache result" where
  "addPoint g c px py fl tol =
    (case lastPath c of
       None \<Rightarrow> Inl Panic
     | Some path \<Rightarrow>
        (if count path > 0 \<and> length (points c) > 0 \<and>
            ptEquals g (pt_x (last (points c))) (pt_y (last (points c))) px py tol
         then Inr (c\<lparr>points := (points c)[length (points c) - 1 :=
                        (last (points c))\<lparr>pt_flags := pt_flags (last (points c)) OR fl\<rparr>]\<rparr>)
         else Inr (setLastPath
                (c\<lparr>points := points c @
                    [\<lparr>pt_x = px, pt_y = py, pt_dx = 0, pt_dy = 0, pt_len = 0, pt_dmx = 0,
                      pt_dmy = 0, pt_flags = fl\<rparr>]\<rparr>)
                (path\<lparr>count := count path + 1\<rparr>))))"

definition closePath :: "nvgPathCache \<Rightarrow> nvgPathCache" where
  "closePath c =
    (case lastPath c of None \<Rightarrow> c | Some path \<Rightarrow> setLastPath c (path\<lparr>closed := True\<rparr>))"

definition pathWinding :: "nvgPathCache \<Rightarrow> Winding \<Rightarrow> nvgPathCache" where
  "pathWinding c w =
    (case lastPath c of None \<Rightarrow> c | Some path \<Rightarrow> setLastPath c (path\<lparr>winding := w\<rparr>))"

text \<open>
  The parts of the tessellation that stay parameters: the points (with their flags) that
  the adaptive subdivision of a cubic curve yields, and the two expansion passes that
  write the vertex data of the cache.
\<close>

record tessellation =
  bezierPoints ::
    "real \<Rightarrow> real \<Rightarrow> real \<Rightarrow> real \<Rightarrow> real \<Rightarrow> real \<Rightarrow> real \<Rightarrow> real \<Rightarrow> int \<Rightarrow> nat \<Rightarrow> real \<Rightarrow>
     (real \<times> real \<times> nat) list"
  expandFill :: "real \<Rightarrow> LineCap \<Rightarrow> real \<Rightarrow> real \<Rightarrow> nvgPathCache \<Rightarrow> nvgPathCache"
  expandStroke ::
    "real \<Rightarrow> LineCap \<Rightarrow> LineCap \<Rightarrow> real \<Rightarrow> real \<Rightarrow> real \<Rightarrow> nvgPathCache \<Rightarrow> nvgPathCache"

fun addPoints ::
  "geometry \<Rightarrow> nvgPathCache \<Rightarrow> (real \<times> real \<times> nat) list \<Rightarrow> real \<Rightarrow> nvgPathCache result" where
  "addPoints g c [] tol = Inr c"
| "addPoints g c ((px, py, fl) # rest) tol =
     bind (addPoint g c px py fl tol) (\<lambda>c'. addPoints g c' rest tol)"

definition tesselateBezier ::
  "geometry \<Rightarrow> tessellation \<Rightarrow> nvgPathCache \<Rightarrow>
   real \<Rightarrow> real \<Rightarrow> real \<Rightarrow> real \<Rightarrow> real \<Rightarrow> real \<Rightarrow> real \<Rightarrow> real \<Rightarrow> int \<Rightarrow> nat \<Rightarrow> real \<Rightarrow> real \<Rightarrow>
   nvgPathCache result" where
  "tesselateBezier g ts c x1 y1 x2 y2 x3 y3 x4 y4 level fl tessTol' distTol' =
     addPoints g c (bezierPoints ts x1 y1 x2 y2 x3 y3 x4 y4 level fl tessTol') distTol'"

text \<open>Twice the signed area of a triangle, and the signed area of the polygon of the
  first \<open>npts\<close> points, summed over the triangles of the fan around the first point.\<close>

definition triarea2 :: "real \<Rightarrow> real \<Rightarrow> real \<Rightarrow> real \<Rightarrow> real \<Rightarrow> real \<Rightarrow> real" where
  "triarea2 ax ay bx by cx cy =
    (let abx = bx - ax; aby = by - ay; acx = cx - ax; acy = cy - ay
     in acx * aby - abx * acy)"

fun fanArea2 :: "nvgPoint \<Rightarrow> nvgPoint list \<Rightarrow> real" where
  "fanArea2 a (b # c # rest) =
     triarea2 (pt_x a) (pt_y a) (pt_x b) (pt_y b) (pt_x c) (pt_y c) + fanArea2 a (c # rest)"
| "fanArea2 a rest = 0"

definition polyArea :: "nvgPoint list \<Rightarrow> int \<Rightarrow> real" where
  "polyArea pts npts =
    (case take (nat npts) pts of
       [] \<Rightarrow> 0
     | a # rest \<Rightarrow> fanArea2 a rest * 0.5)"

text \<open>\<^verbatim>\<open>polyReverse(points, npts)\<close> on the slice of the arena that starts at \<open>base\<close>:
  the first \<open>npts\<close> points of the slice change their order, in place.\<close>

definition polyReverse :: "nvgPoint list \<Rightarrow> nat \<Rightarrow> int \<Rightarrow> nvgPoint list" where
  "polyReverse arena base npts =
     take base arena @ rev (take (nat npts) (drop base arena)) @ drop (base + nat npts) arena"

text \<open>
  The first loop of \<^verbatim>\<open>flattenPaths\<close>, over the command buffer from index \<open>i\<close> on: the
  list is the part of the buffer not yet read. Reading an index past the end panics.
\<close>

fun flattenCommands ::
  "geometry \<Rightarrow> tessellation \<Rightarrow> real \<Rightarrow> real \<Rightarrow> real list \<Rightarrow> nvgPathCache \<Rightarrow>
   nvgPathCache result" where
  "flattenCommands g ts tessTol' distTol' [] c = Inr c"
| "flattenCommands g ts tessTol' distTol' (cmd # rest) c =
    (if toInt cmd = nvgMOVETO then
       (case rest of
          a # b # r \<Rightarrow>
            bind (addPoint g (addPath c) a b nvgPtCORNER distTol')
              (\<lambda>c'. flattenCommands g ts tessTol' distTol' r c')
        | _ \<Rightarrow> Inl Panic)
     else if toInt cmd = nvgLINETO then
       (case rest of
          a # b # r \<Rightarrow>
            bind (addPoint g c a b nvgPtCORNER distTol')
              (\<lambda>c'. flattenCommands g ts tessTol' distTol' r c')
        | _ \<Rightarrow> Inl Panic)
     else if toInt cmd = nvgBEZIERTO then
       (case lastPoint c of
          None \<Rightarrow> flattenCommands g ts tessTol' distTol' (drop 6 rest) c
        | Some lastpt \<Rightarrow>
            (case rest of
               a1 # b1 # a2 # b2 # a3 # b3 # r \<Rightarrow>
                 bind (tesselateBezier g ts c (pt_x lastpt) (pt_y lastpt) a1 b1 a2 b2 a3 b3
                         0 nvgPtCORNER tessTol' distTol')
                   (\<lambda>c'. flattenCommands g ts tessTol' distTol' r c')
             | _ \<Rightarrow> Inl Panic))
     else if toInt cmd = nvgCLOSE then
       flattenCommands g ts tessTol' distTol' rest (closePath c)
     else if toInt cmd = nvgWINDING then
       (case rest of
          w # r \<Rightarrow> flattenCommands g ts tessTol' distTol' r (pathWinding c (toInt w))
        | _ \<Rightarrow> Inl Panic)
     else flattenCommands g ts tessTol' distTol' rest c)"

text \<open>
  The loop \<^verbatim>\<open>for i := 0; i < path.count; i++\<close> of the second part. The slice
  \<^verbatim>\<open>points\<close> is the arena from \<open>base\<close> on and has \<open>n\<close> elements; the pointers
  \<^verbatim>\<open>p0\<close> and \<^verbatim>\<open>p1\<close> are indices into the arena, so that a write through one is seen
  through the other when they coincide.
\<close>

function segLoop ::
  "geometry \<Rightarrow> nat \<Rightarrow> nat \<Rightarrow> int \<Rightarrow> int \<Rightarrow>
   nvgPoint list \<times> (real \<times> real \<times> real \<times> real) \<times> nat \<times> nat \<times> nat \<Rightarrow>
   (nvgPoint list \<times> (real \<times> real \<times> real \<times> real)) result" where
  "segLoop g n base cnt i (arena, bnds, p0i, p1i, p1Index) =
    (if i < cnt then
       (if p0i \<ge> length arena \<or> p1i \<ge> length arena then Inl Panic
        else
          (let p0 = arena ! p0i;
               p1 = arena ! p1i;
               (l, ux, uy) = normalize g (pt_x p1 - pt_x p0) (pt_y p1 - pt_y p0);
               arena' = arena[p0i := p0\<lparr>pt_len := l, pt_dx := ux, pt_dy := uy\<rparr>];
               (b0, b1, b2, b3) = bnds;
               bnds' = (minF b0 (pt_x p0), minF b1 (pt_y p0),
                        maxF b2 (pt_x p0), maxF b3 (pt_y p0));
               p1Index' = p1Index + 1
           in if n \<noteq> p1Index' \<and> \<not> p1Index' < n then Inl Panic
              else segLoop g n base cnt (i + 1)
                     (arena', bnds', p1i,
                      (if n \<noteq> p1Index' then base + p1Index' else p1i), p1Index')))
     else Inr (arena, bnds))"
  by pat_completeness auto
termination
  by (relation "measure (\<lambda>(g, n, base, cnt, i, st). nat (cnt - i))") auto

declare segLoop.simps [simp del]

text \<open>The block \<^verbatim>\<open>if ptEquals(p0.x, p0.y, p1.x, p1.y, ctx.distTol) && path.count > 2\<close>:
  a last point that repeats the first one is dropped from the path, which is then closed.
  The result is the path and the index of \<^verbatim>\<open>p0\<close>.\<close>

definition dropClosingPoint ::
  "geometry \<Rightarrow> real \<Rightarrow> nvgPoint list \<Rightarrow> nat \<Rightarrow> nvgPath \<Rightarrow> nvgPath \<times> nat" where
  "dropClosingPoint g distTol' arena base path =
    (let p0i = base + nat (count path - 1);
         p1i = base
     in if ptEquals g (pt_x (arena ! p0i)) (pt_y (arena ! p0i))
             (pt_x (arena ! p1i)) (pt_y (arena ! p1i)) distTol' \<and>
           count path > 2
        then (path\<lparr>count := count path - 1, closed := True\<rparr>,
              base + nat (count path - 1 - 1))
        else (path, p0i))"

text \<open>The block \<^verbatim>\<open>// Enforce winding.\<close>, on the slice of the arena from \<open>base\<close> on.\<close>

definition enforceWinding :: "nvgPoint list \<Rightarrow> nat \<Rightarrow> nvgPath \<Rightarrow> nvgPoint list" where
  "enforceWinding arena base path =
    (if count path > 2 then
       (let area = polyArea (drop base arena) (count path)
        in if winding path = Solid \<and> area < 0 then polyReverse arena base (count path)
           else if winding path = Hole \<and> area > 0 then polyReverse arena base (count path)
           else arena)
     else arena)"

text \<open>The body of the loop \<^verbatim>\<open>for j := 0; j < len(cache.paths); j++\<close>, for the path
  of index \<open>j\<close>. Slicing \<^verbatim>\<open>cache.points[path.first:]\<close> panics when the offset lies
  outside the arena, and so does \<^verbatim>\<open>points[path.count-1]\<close> outside the slice.\<close>

definition flattenPath :: "geometry \<Rightarrow> real \<Rightarrow> nvgPathCache \<Rightarrow> nat \<Rightarrow> nvgPathCache result" where
  "flattenPath g distTol' c j =
    (let path = paths c ! j
     in if first path < 0 \<or> first path > int (length (points c)) then Inl Panic
        else
          (let base = nat (first path);
               n = length (points c) - base
           in if count path - 1 < 0 \<or> count path - 1 \<ge> int n then Inl Panic
              else
                (let (path1, p0i) = dropClosingPoint g distTol' (points c) base path;
                     arena1 = enforceWinding (points c) base path1
                 in bind (segLoop g n base (count path1) 0 (arena1, bounds c, p0i, base, 0))
                      (\<lambda>(arena2, bnds).
                         Inr (c\<lparr>points := arena2, paths := (paths c)[j := path1],
                                bounds := bnds\<rparr>)))))"

lemma flattenPath_Inr:
  assumes "flattenPath g distTol' c j = Inr c'"
  shows "\<exists>arena2 bnds.
     segLoop g (length (points c) - nat (first (paths c ! j))) (nat (first (paths c ! j)))
       (count (fst (dropClosingPoint g distTol' (points c) (nat (first (paths c ! j)))
          (paths c ! j)))) 0
       (enforceWinding (points c) (nat (first (paths c ! j)))
          (fst (dropClosingPoint g distTol' (points c) (nat (first (paths c ! j)))
             (paths c ! j))),
        bounds c,
        snd (dropClosingPoint g distTol' (points c) (nat (first (paths c ! j))) (paths c ! j)),
        nat (first (paths c ! j)), 0) = Inr (arena2, bnds) \<and>
     c' = c\<lparr>points := arena2,
            paths := (paths c)[j := fst (dropClosingPoint g distTol' (points c)
               (nat (first (paths c ! j))) (paths c ! j))],
            bounds := bnds\<rparr>"
proof -
  let ?path = "paths c ! j"
  let ?base = "nat (first ?path)"
  let ?d = "dropClosingPoint g distTol' (points c) ?base ?path"
  let ?seg = "segLoop g (length (points c) - ?base) ?base (count (fst ?d)) 0
       (enforceWinding (points c) ?base (fst ?d), bounds c, snd ?d, ?base, 0)"
  have g1: "\<not> (first ?path < 0 \<or> first ?path > int (length (points c)))"
    using assms by (simp add: flattenPath_def Let_def split: if_splits)
  have g2: "\<not> (count ?path - 1 < 0 \<or> count ?path - 1 \<ge> int (length (points c) - ?base))"
  proof
    assume "count ?path - 1 < 0 \<or> count ?path - 1 \<ge> int (length (points c) - ?base)"
    with g1 have "flattenPath g distTol' c j = Inl Panic"
      by (simp only: flattenPath_def Let_def if_False if_True)
    with assms show False by simp
  qed
  have eq: "flattenPath g distTol' c j =
      bind ?seg (\<lambda>(arena2, bnds).
         Inr (c\<lparr>points := arena2, paths := (paths c)[j := fst ?d], bounds := bnds\<rparr>))"
    using g1 g2 by (simp only: flattenPath_def Let_def if_False case_prod_unfold)
  show ?thesis
  proof (cases ?seg)
    case (Inl e)
    with assms eq show ?thesis by (simp add: bind_def)
  next
    case (Inr r)
    obtain arena2 bnds where r: "r = (arena2, bnds)" by (cases r) auto
    with assms eq Inr show ?thesis by (simp add: bind_def)
  qed
qed

lemma flattenPath_length_paths:
  "flattenPath g distTol' c j = Inr c' \<Longrightarrow> length (paths c') = length (paths c)"
  by (drule flattenPath_Inr) auto

function pathsLoop :: "geometry \<Rightarrow> real \<Rightarrow> nvgPathCache \<Rightarrow> nat \<Rightarrow> nvgPathCache result" where
  "pathsLoop g distTol' c j =
    (if j < length (paths c) then
       (case flattenPath g distTol' c j of
          Inl e \<Rightarrow> Inl e
        | Inr c' \<Rightarrow> pathsLoop g distTol' c' (j + 1))
     else Inr c)"
  by pat_completeness auto
termination
  by (relation "measure (\<lambda>(g, distTol', c, j). length (paths c) - j)")
     (auto simp: flattenPath_length_paths)

declare pathsLoop.simps [simp del]

text \<open>\<^verbatim>\<open>flattenPaths\<close>.\<close>

definition flattenPaths :: "geometry \<Rightarrow> tessellation \<Rightarrow> Context \<Rightarrow> Context result" where
  "flattenPaths g ts ctx =
    (if length (paths (cache ctx)) > 0 then Inr ctx
     else
       bind (flattenCommands g ts (tessTol ctx) (distTol ctx) (commands ctx) (cache ctx))
         (\<lambda>c1. bind (pathsLoop g (distTol ctx)
                        (c1\<lparr>bounds := (1000000, 1000000, - 1000000, - 1000000)\<rparr>) 0)
           (\<lambda>c2. Inr (ctx\<lparr>cache := c2\<rparr>))))"

text \<open>\<^verbatim>\<open>BeginPath\<close>.\<close>

definition BeginPath :: "Context \<Rightarrow> Context" where
  "BeginPath ctx = ctx\<lparr>commands := [], cache := clearPathCache (cache ctx)\<rparr>"

section \<open>Fill and Stroke\<close>

text \<open>
  Modelled from the spec: \<^verbatim>\<open>getAverageScale\<close> is a method of \<^verbatim>\<open>TransformMatrix\<close>
  defined outside \<^verbatim>\<open>nanovgo.go\<close>; it is the mean of the lengths to which the transform
  stretches the two axes.
\<close>

definition getAverageScale :: "TransformMatrix \<Rightarrow> real" where
  "getAverageScale t =
    (let sx = sqrt (t0 t * t0 t + t2 t * t2 t);
         sy = sqrt (t1 t * t1 t + t3 t * t3 t)
     in (sx + sy) * 0.5)"

text \<open>
  What a drawing call hands to its collaborators, in order: the arguments of the expansion
  pass of the cache (its first argument is the width \<open>w\<close>) and the arguments of the
  backend call.
\<close>

datatype call =
    ExpandFill real LineCap real real
  | ExpandStroke real LineCap LineCap real real real
  | RenderFill Paint nvgScissor real "real \<times> real \<times> real \<times> real" "nvgPath list"
  | RenderStroke Paint nvgScissor real real "nvgPath list"

text \<open>The loops \<^verbatim>\<open>// Count triangles\<close> of \<^verbatim>\<open>Fill\<close> and of \<^verbatim>\<open>Stroke\<close>.\<close>

fun countFillTriangles :: "Context \<Rightarrow> nvgPath list \<Rightarrow> Context" where
  "countFillTriangles ctx [] = ctx"
| "countFillTriangles ctx (path # rest) =
     countFillTriangles
       (ctx\<lparr>fillTriCount := fillTriCount ctx + (int (length (fills path)) - 2),
             strokeTriCount := strokeTriCount ctx + (int (length (strokes path)) - 2),
             drawCallCount := drawCallCount ctx + 2\<rparr>) rest"

fun countStrokeTriangles :: "Context \<Rightarrow> nvgPath list \<Rightarrow> Context" where
  "countStrokeTriangles ctx [] = ctx"
| "countStrokeTriangles ctx (path # rest) =
     countStrokeTriangles
       (ctx\<lparr>strokeTriCount := strokeTriCount ctx + (int (length (strokes path)) - 2),
             drawCallCount := drawCallCount ctx + 2\<rparr>) rest"

text \<open>\<^verbatim>\<open>paint.innerColor.A *= f; paint.outerColor.A *= f\<close>.\<close>

definition scaleAlpha :: "Paint \<Rightarrow> real \<Rightarrow> Paint" where
  "scaleAlpha paint f =
     paint\<lparr>innerColor := (innerColor paint)\<lparr>A := A (innerColor paint) * f\<rparr>,
           outerColor := (outerColor paint)\<lparr>A := A (outerColor paint) * f\<rparr>\<rparr>"

text \<open>\<^verbatim>\<open>Fill\<close>, from the expansion on: what follows the call of \<^verbatim>\<open>flattenPaths\<close>.\<close>

definition fillExpand :: "tessellation \<Rightarrow> nvgState \<Rightarrow> Context \<Rightarrow> Context \<times> call list" where
  "fillExpand ts state ctx =
    (let w = (if edgeAntiAlias ctx then fringeWidth ctx else 0);
         ctx1 = ctx\<lparr>cache := expandFill ts w Miter 2.4 (fringeWidth ctx) (cache ctx)\<rparr>;
         fillPaint = scaleAlpha (fill state) (alpha state)
     in (countFillTriangles ctx1 (paths (cache ctx1)),
         [ExpandFill w Miter 2.4 (fringeWidth ctx),
          RenderFill fillPaint (scissor state) (fringeWidth ctx1) (bounds (cache ctx1))
            (paths (cache ctx1))]))"

definition Fill :: "geometry \<Rightarrow> tessellation \<Rightarrow> Context \<Rightarrow> (Context \<times> call list) result" where
  "Fill g ts ctx =
     bind (getState ctx) (\<lambda>state.
       bind (flattenPaths g ts ctx) (\<lambda>ctx1. Inr (fillExpand ts state ctx1)))"

text \<open>
  \<^verbatim>\<open>Stroke\<close>, up to the call of \<^verbatim>\<open>flattenPaths\<close>: the stroke width and the paint.
  The quotient \<^verbatim>\<open>strokeWidth/ctx.fringeWidth\<close> is formed only where the fringe width
  exceeds the clamped width.
\<close>

definition strokeWidthAndPaint :: "nvgState \<Rightarrow> real \<Rightarrow> (real \<times> Paint) result" where
  "strokeWidthAndPaint state fringe =
    (let scale = getAverageScale (xform state);
         strokeWidth0 = clampF (strokeWidth state * scale) 0 200;
         strokePaint = stroke state
     in bind (if strokeWidth0 < fringe then
                (if fringe = 0 then Inl NonFinite
                 else
                   (let alpha' = clampF (strokeWidth0 / fringe) 0 1
                    in Inr (fringe, scaleAlpha strokePaint (alpha' * alpha'))))
              else Inr (strokeWidth0, strokePaint))
          (\<lambda>(strokeWidth1, strokePaint1).
             Inr (strokeWidth1, scaleAlpha strokePaint1 (alpha state))))"

text \<open>\<^verbatim>\<open>Stroke\<close>.\<close>

definition Stroke :: "geometry \<Rightarrow> tessellation \<Rightarrow> Context \<Rightarrow> (Context \<times> call list) result" where
  "Stroke g ts ctx =
     bind (getState ctx) (\<lambda>state.
       bind (strokeWidthAndPaint state (fringeWidth ctx)) (\<lambda>(strokeWidth1, strokePaint).
         bind (flattenPaths g ts ctx) (\<lambda>ctx1.
           if list_ex (\<lambda>path. count path = 1) (paths (cache ctx1)) then Inl Panic
           else
             (let w = (if edgeAntiAlias ctx1
                       then strokeWidth1 * 0.5 + fringeWidth ctx1 * 0.5
                       else strokeWidth1 * 0.5);
                  ctx2 = ctx1\<lparr>cache := expandStroke ts w (lineCap state) (lineJoin state)
                                (miterLimit state) (fringeWidth ctx1) (tessTol ctx1)
                                (cache ctx1)\<rparr>
              in Inr (countStrokeTriangles ctx2 (paths (cache ctx2)),
                      [ExpandStroke w (lineCap state) (lineJoin state) (miterLimit state)
                         (fringeWidth ctx1) (tessTol ctx1),
                       RenderStroke strokePaint (scissor state) (fringeWidth ctx2)
                         strokeWidth1 (paths (cache ctx2))])))))"

text \<open>What the calls of one \<^verbatim>\<open>Stroke\<close> carry: the width given to the expansion pass,
  and the stroke width and the paint given to the backend.\<close>

fun expandedWidth :: "call list \<Rightarrow> real option" where
  "expandedWidth [] = None"
| "expandedWidth (ExpandStroke w cap join miter fringe tol # rest) = Some w"
| "expandedWidth (ExpandFill w join miter fringe # rest) = Some w"
| "expandedWidth (c # rest) = expandedWidth rest"

fun renderedWidth :: "call list \<Rightarrow> real option" where
  "renderedWidth [] = None"
| "renderedWidth (RenderStroke paint sc fringe w ps # rest) = Some w"
| "renderedWidth (c # rest) = renderedWidth rest"

fun renderedPaint :: "call list \<Rightarrow> Paint option" where
  "renderedPaint [] = None"
| "renderedPaint (RenderStroke paint sc fringe w ps # rest) = Some paint"
| "renderedPaint (RenderFill paint sc fringe bnds ps # rest) = Some paint"
| "renderedPaint (c # rest) = renderedPaint rest"

text \<open>
  An instance of the tessellation parameters, used to run the model on concrete inputs:
  the subdivision of a curve yields its end point only, and the expansion passes write
  no vertex data.
\<close>

definition refTess :: tessellation where
  "refTess = \<lparr>bezierPoints = (\<lambda>x1 y1 x2 y2 x3 y3 x4 y4 level fl tol. [(x4, y4, fl)]),
     expandFill = (\<lambda>w join miter fringe c. c),
     expandStroke = (\<lambda>w cap join miter fringe tol c. c)\<rparr>"

text \<open>The identity-transform context after \<^verbatim>\<open>MoveTo(0, 0)\<close> and \<^verbatim>\<open>LineTo(1, 0)\<close>.\<close>

definition ctxLine :: Context where
  "ctxLine = ctxI\<lparr>commands := [of_int nvgMOVETO, 0, 0, of_int nvgLINETO, 1, 0],
     commandX := 1, commandY := 0\<rparr>"

text \<open>Shorthands for a point and for a path without vertex data.\<close>

definition pt :: "real \<Rightarrow> real \<Rightarrow> real \<Rightarrow> real \<Rightarrow> real \<Rightarrow> nat \<Rightarrow> nvgPoint" where
  "pt px py pdx pdy plen fl = \<lparr>pt_x = px, pt_y = py, pt_dx = pdx, pt_dy = pdy, pt_len = plen,
     pt_dmx = 0, pt_dmy = 0, pt_flags = fl\<rparr>"

definition pathOf :: "int \<Rightarrow> int \<Rightarrow> bool \<Rightarrow> Winding \<Rightarrow> nvgPath" where
  "pathOf f n cl w = \<lparr>first = f, count = n, closed = cl, nbevel = 0, fills = [], strokes = [],
     winding = w, convex = False\<rparr>"

text \<open>The value of \<^verbatim>\<open>strokeWidth\<close> in \<^verbatim>\<open>Stroke\<close> before the adjustment for thin
  strokes: the stroke width of the state times the average scale, clamped.\<close>

definition effectiveStrokeWidth :: "nvgState \<Rightarrow> real" where
  "effectiveStrokeWidth state =
     clampF (strokeWidth state * getAverageScale (xform state)) 0 200"

text \<open>What a \<^verbatim>\<open>Stroke\<close> or \<^verbatim>\<open>Fill\<close> that returns has handed on: the alpha channels
  of the inner and outer colour of the paint, and the widths given to the expansion pass
  and to the backend.\<close>

definition strokeAlphas :: "(Context \<times> call list) result \<Rightarrow> (real \<times> real) option" where
  "strokeAlphas r =
    (case r of
       Inl e \<Rightarrow> None
     | Inr (c, calls) \<Rightarrow>
         (case renderedPaint calls of
            None \<Rightarrow> None
          | Some p \<Rightarrow> Some (A (innerColor p), A (outerColor p))))"

definition strokeWidths :: "(Context \<times> call list) result \<Rightarrow> (real \<times> real) option" where
  "strokeWidths r =
    (case r of
       Inl e \<Rightarrow> None
     | Inr (c, calls) \<Rightarrow>
         (case expandedWidth calls of
            None \<Rightarrow> None
          | Some w \<Rightarrow>
              (case renderedWidth calls of None \<Rightarrow> None | Some sw \<Rightarrow> Some (w, sw))))"

definition returns :: "'a result \<Rightarrow> bool" where
  "returns r = (case r of Inl e \<Rightarrow> False | Inr v \<Rightarrow> True)"

text \<open>The identity-transform context after \<^verbatim>\<open>MoveTo(0, 0)\<close>, \<^verbatim>\<open>LineTo(0, 0)\<close> and
  \<^verbatim>\<open>ClosePath()\<close>: a closed path that degenerates to one point.\<close>

definition ctxDot :: Context where
  "ctxDot = ctxI\<lparr>commands := [of_int nvgMOVETO, 0, 0, of_int nvgLINETO, 0, 0, of_int nvgCLOSE],
     commandX := 0, commandY := 0\<rparr>"

text \<open>The value of \<^verbatim>\<open>strokeWidth\<close> in \<^verbatim>\<open>Stroke\<close> after the adjustment for thin
  strokes, as it is given to the backend.\<close>

definition backendStrokeWidth :: "Context \<Rightarrow> real" where
  "backendStrokeWidth ctx =
    (if effectiveStrokeWidth (last (states ctx)) < fringeWidth ctx then fringeWidth ctx
     else effectiveStrokeWidth (last (states ctx)))"

text \<open>Contexts for running \<^verbatim>\<open>Stroke\<close>: the segment of \<open>ctxLine\<close>, an opaque stroke
  paint, global alpha one, and the given transform and stroke width.\<close>

definition opaquePaint :: Paint where
  "opaquePaint = zeroPaint\<lparr>innerColor := zeroColor\<lparr>A := 1\<rparr>, outerColor := zeroColor\<lparr>A := 1\<rparr>\<rparr>"

definition strokeState :: "TransformMatrix \<Rightarrow> real \<Rightarrow> nvgState" where
  "strokeState xf sw = zeroState\<lparr>xform := xf, strokeWidth := sw, alpha := 1, stroke := opaquePaint\<rparr>"

definition ctxStroke :: "TransformMatrix \<Rightarrow> real \<Rightarrow> Context" where
  "ctxStroke xf sw = ctxLine\<lparr>states := [strokeState xf sw]\<rparr>"

text \<open>\<^verbatim>\<open>setDevicePixelRatio\<close>, which \<^verbatim>\<open>BeginFrame\<close> calls with the ratio it is given. A
  ratio of zero makes the three quotients infinite.\<close>

definition setDevicePixelRatio :: "Context \<Rightarrow> real \<Rightarrow> Context result" where
  "setDevicePixelRatio ctx ratio =
    (if ratio = 0 then Inl NonFinite
     else Inr (ctx\<lparr>tessTol := 0.25 / ratio, distTol := 0.01 / ratio,
                 fringeWidth := 1.0 / ratio, devicePxRatio := ratio\<rparr>))"

text \<open>The context after \<^verbatim>\<open>setDevicePixelRatio(0.001)\<close>, \<^verbatim>\<open>MoveTo(0, 0)\<close> and
  \<^verbatim>\<open>LineTo(100, 0)\<close>, with stroke width one.\<close>

definition ctxCoarse :: Context where
  "ctxCoarse = ctxI\<lparr>commands := [of_int nvgMOVETO, 0, 0, of_int nvgLINETO, 100, 0],
     commandX := 100, commandY := 0, states := [strokeState IdentityMatrix 1],
     tessTol := 250, distTol := 10, fringeWidth := 1000, devicePxRatio := 1 / 1000\<rparr>"

text \<open>The flattened paths and the bounds that the cache holds after a \<^verbatim>\<open>Fill\<close> that
  returns.\<close>

definition filledCache ::
  "(Context \<times> call list) result \<Rightarrow> (nvgPath list \<times> (real \<times> real \<times> real \<times> real)) option" where
  "filledCache r =
    (case r of Inl e \<Rightarrow> None | Inr (c, calls) \<Rightarrow> Some (paths (cache c), bounds (cache c)))"

text \<open>The context \<open>ctxLine\<close> after flattening, and after a whole \<^verbatim>\<open>Fill\<close>.\<close>

definition ctxLineFlat :: Context where
  "ctxLineFlat = ctxLine\<lparr>cache := emptyCache\<lparr>points :=
       [pt 0 0 1 0 1 nvgPtCORNER, pt 1 0 (- 1) 0 1 nvgPtCORNER],
     paths := [pathOf 0 2 False Solid], bounds := (0, 0, 1, 0)\<rparr>\<rparr>"

definition ctxLineFilled :: Context where
  "ctxLineFilled = fst (fillExpand refTess (last (states ctxLine)) ctxLineFlat)"

section \<open>Polygon area and orientation\<close>

text \<open>
  Notions for reasoning about the winding of a path: the coordinates of a point, the cross
  product of two position vectors, the sum of the cross products along a chain of
  points, the same sum around the closed polygon (twice its signed area, up to the sign
  convention), and the reversal of a segment of a list.
\<close>

definition ptXY :: "nvgPoint \<Rightarrow> real \<times> real" where
  "ptXY p = (pt_x p, pt_y p)"

definition cr :: "real \<times> real \<Rightarrow> real \<times> real \<Rightarrow> real" where
  "cr p q = fst p * snd q - snd p * fst q"

fun chain :: "(real \<times> real) list \<Rightarrow> real" where
  "chain (a # b # rest) = cr a b + chain (b # rest)"
| "chain rest = 0"

definition cyc :: "(real \<times> real) list \<Rightarrow> real" where
  "cyc xs = (case xs of [] \<Rightarrow> 0 | a # rest \<Rightarrow> chain xs + cr (last xs) a)"

definition revSeg :: "nat \<Rightarrow> nat \<Rightarrow> 'a list \<Rightarrow> 'a list" where
  "revSeg b n xs = take b xs @ rev (take n (drop b xs)) @ drop (b + n) xs"

text \<open>
  The paths of a cache are laid out in the arena one after the other: every path starts at
  or after the end of the one before it and none reaches beyond the \<open>e\<close> points of the
  arena. This holds of the cache that the first loop of \<^verbatim>\<open>flattenPaths\<close> builds, and
  makes the reversal of one path leave the others alone.
\<close>

fun laid :: "int \<Rightarrow> nvgPath list \<Rightarrow> int \<Rightarrow> bool" where
  "laid s [] e = (s \<le> e)"
| "laid s (p # ps) e = (s \<le> first p \<and> 0 \<le> count p \<and> laid (first p + count p) ps e)"

definition cacheLaid :: "nvgPathCache \<Rightarrow> bool" where
  "cacheLaid c = laid 0 (paths c) (int (length (points c)))"

text \<open>
  The sign of the signed area of a path, computed as \<^verbatim>\<open>flattenPaths\<close> does it (on the
  slice of the arena from the path's offset, over the path's count), agrees with the
  winding of the path: not negative for \<open>Solid\<close>, not positive for \<open>Hole\<close>.
\<close>

definition windingAgrees :: "nvgPathCache \<Rightarrow> nvgPath \<Rightarrow> bool" where
  "windingAgrees c p =
    ((winding p = Solid \<longrightarrow> 0 \<le> polyArea (drop (nat (first p)) (points c)) (count p)) \<and>
     (winding p = Hole \<longrightarrow> polyArea (drop (nat (first p)) (points c)) (count p) \<le> 0))"

text \<open>
  The identity-transform context after \<^verbatim>\<open>MoveTo(0, 0)\<close>, \<^verbatim>\<open>LineTo(0, 1)\<close>,
  \<^verbatim>\<open>LineTo(1, 1)\<close>, \<^verbatim>\<open>LineTo(1, 0)\<close>, \<^verbatim>\<open>ClosePath()\<close> and \<^verbatim>\<open>PathWinding(Hole)\<close>:
  a unit square of area 1 that is declared a hole; and the same context with the cache
  that flattening produces, where the four points come in the opposite order.
\<close>

definition ctxHole :: Context where
  "ctxHole = ctxI\<lparr>commands := [of_int nvgMOVETO, 0, 0, of_int nvgLINETO, 0, 1,
       of_int nvgLINETO, 1, 1, of_int nvgLINETO, 1, 0, of_int nvgCLOSE,
       of_int nvgWINDING, of_int Hole],
     commandX := 1, commandY := 0\<rparr>"

definition ctxHoleFlat :: Context where
  "ctxHoleFlat = ctxHole\<lparr>cache := emptyCache\<lparr>points :=
       [pt 1 0 0 1 1 nvgPtCORNER, pt 1 1 (- 1) 0 1 nvgPtCORNER,
        pt 0 1 0 (- 1) 1 nvgPtCORNER, pt 0 0 1 0 1 nvgPtCORNER],
     paths := [pathOf 0 4 True Hole], bounds := (0, 0, 1, 1)\<rparr>\<rparr>"

section \<open>Properties of the state stack\<close>

text \<open>
  C8. \<open>Restore\<close> pops the top state when more than one state is present and changes
  nothing when exactly one state remains; it is a total function (there is no failure
  branch), a stack that holds a state still holds one afterwards, and its depth after
  \<open>Restore\<close> is \<open>max (depth - 1) 1\<close>.
\<close>

theorem Restore_depth:
  "(length (states ctx) > 1 \<longrightarrow>
      states (Restore ctx) = butlast (states ctx) \<and>
      Restore ctx = ctx\<lparr>states := butlast (states ctx)\<rparr>) \<and>
   (length (states ctx) = 1 \<longrightarrow> Restore ctx = ctx) \<and>
   (states ctx \<noteq> [] \<longrightarrow>
      states (Restore ctx) \<noteq> [] \<and>
      int (length (states (Restore ctx))) = max (int (length (states ctx)) - 1) 1)"
proof (intro conjI impI)
  assume "length (states ctx) > 1"
  then show "states (Restore ctx) = butlast (states ctx)"
    by (simp add: Restore_def Let_def butlast_conv_take)
next
  assume "length (states ctx) > 1"
  then show "Restore ctx = ctx\<lparr>states := butlast (states ctx)\<rparr>"
    by (simp add: Restore_def Let_def butlast_conv_take)
next
  assume "length (states ctx) = 1"
  then show "Restore ctx = ctx"
    by (simp add: Restore_def Let_def)
next
  assume ne: "states ctx \<noteq> []"
  then have pos: "length (states ctx) > 0" by simp
  show "states (Restore ctx) \<noteq> []"
  proof (cases "length (states ctx) > 1")
    case True
    then have "length (states (Restore ctx)) = length (states ctx) - 1"
      by (simp add: Restore_def Let_def)
    with True show ?thesis by auto
  next
    case False
    with ne show ?thesis by (simp add: Restore_def Let_def)
  qed
next
  assume ne: "states ctx \<noteq> []"
  then have pos: "length (states ctx) > 0" by simp
  show "int (length (states (Restore ctx))) = max (int (length (states ctx)) - 1) 1"
  proof (cases "length (states ctx) > 1")
    case True
    then show ?thesis by (simp add: Restore_def Let_def)
  next
    case False
    with pos have "length (states ctx) = 1" by linarith
    then show ?thesis by (simp add: Restore_def Let_def)
  qed
qed

theorem Restore_depth_witness:
  "states (Restore (ctx0\<lparr>states := [zeroState, zeroState\<lparr>alpha := 1\<rparr>]\<rparr>)) = [zeroState] \<and>
   Restore ctx0 = ctx0 \<and>
   states (Restore ctx0) \<noteq> [] \<and>
   int (length (states (Restore ctx0))) = max (int (length (states ctx0)) - 1) 1"
  using Restore_depth [of "ctx0\<lparr>states := [zeroState, zeroState\<lparr>alpha := 1\<rparr>]\<rparr>"]
    Restore_depth [of ctx0]
  by (simp add: ctx0_def)

text \<open>
  C9. \<open>Save\<close> pushes a copy of the current top state, or the zero state when the stack
  is empty; when the stack has reached the maximum depth it returns the context
  unchanged. It is a total function: there is no failure branch. Nothing but the stack
  is touched.
\<close>

theorem Save_push_or_noop:
  "(length (states ctx) \<ge> nvgMaxStates \<longrightarrow> Save nvgMaxStates ctx = ctx) \<and>
   (length (states ctx) < nvgMaxStates \<and> states ctx \<noteq> [] \<longrightarrow>
      Save nvgMaxStates ctx = ctx\<lparr>states := states ctx @ [last (states ctx)]\<rparr>) \<and>
   (length (states ctx) < nvgMaxStates \<and> states ctx = [] \<longrightarrow>
      Save nvgMaxStates ctx = ctx\<lparr>states := [zeroState]\<rparr>)"
  by (simp add: Save_def last_conv_nth)

theorem Save_push_or_noop_witness:
  "Save 1 ctx0 = ctx0 \<and>
   Save 32 ctx0 = ctx0\<lparr>states := [zeroState, zeroState]\<rparr> \<and>
   Save 32 (ctx0\<lparr>states := []\<rparr>) = ctx0\<lparr>states := [zeroState]\<rparr>"
  using Save_push_or_noop [of 1 ctx0] Save_push_or_noop [of 32 ctx0]
    Save_push_or_noop [of 32 "ctx0\<lparr>states := []\<rparr>"]
  by (simp add: ctx0_def)

section \<open>Properties of command recording\<close>

lemma toInt_of_int [simp]: "toInt (of_int n) = n"
  by (simp add: toInt_def)

lemma bind_Inr [simp]: "bind (Inr v) f = f v"
  by (simp add: bind_def)

lemma bind_Inl [simp]: "bind (Inl e) f = Inl e"
  by (simp add: bind_def)

lemma opcodes_distinct:
  "nvgMOVETO \<noteq> nvgLINETO" "nvgMOVETO \<noteq> nvgBEZIERTO" "nvgMOVETO \<noteq> nvgCLOSE"
  "nvgMOVETO \<noteq> nvgWINDING" "nvgLINETO \<noteq> nvgMOVETO" "nvgLINETO \<noteq> nvgBEZIERTO"
  "nvgLINETO \<noteq> nvgCLOSE" "nvgLINETO \<noteq> nvgWINDING" "nvgBEZIERTO \<noteq> nvgMOVETO"
  "nvgBEZIERTO \<noteq> nvgLINETO" "nvgBEZIERTO \<noteq> nvgCLOSE" "nvgBEZIERTO \<noteq> nvgWINDING"
  "nvgCLOSE \<noteq> nvgMOVETO" "nvgCLOSE \<noteq> nvgLINETO" "nvgCLOSE \<noteq> nvgBEZIERTO"
  "nvgCLOSE \<noteq> nvgWINDING" "nvgWINDING \<noteq> nvgMOVETO" "nvgWINDING \<noteq> nvgLINETO"
  "nvgWINDING \<noteq> nvgBEZIERTO" "nvgWINDING \<noteq> nvgCLOSE"
  by (simp_all add: nvgMOVETO_def nvgLINETO_def nvgBEZIERTO_def nvgCLOSE_def nvgWINDING_def)

text \<open>One command of the buffer: the loop transforms exactly its position operands and
  goes on behind it.\<close>

lemma xformVals_encode:
  "xformVals t (encodeCommand c @ vs) =
     bind (xformVals t vs) (\<lambda>r. Inr (encodeCommand (transformCommand t c) @ r))"
  by (cases c) (simp_all add: opcodes_distinct)

lemma encodeCommands_Cons: "encodeCommands (c # cs) = encodeCommand c @ encodeCommands cs"
  by (simp add: encodeCommands_def)

lemma xformVals_encodeCommands:
  "xformVals t (encodeCommands cs) = Inr (encodeCommands (map (transformCommand t) cs))"
  by (induction cs) (simp_all add: encodeCommands_def xformVals_encode)

lemma encodeCommand_nonempty: "encodeCommand c \<noteq> []"
  by (cases c) simp_all

lemma appendCommand_encode:
  assumes st: "states ctx \<noteq> []" and ne: "cs \<noteq> []"
  shows "resultCommands (appendCommand ctx (encodeCommands cs)) =
     Some (commands ctx @ encodeCommands (map (transformCommand (xform (last (states ctx)))) cs))"
proof -
  from ne obtain c cs' where cs: "cs = c # cs'" by (cases cs) auto
  have nonempty: "encodeCommands cs \<noteq> []"
    by (simp add: cs encodeCommands_Cons encodeCommand_nonempty)
  have len: "toInt (encodeCommands cs ! 0) \<noteq> nvgCLOSE \<and> toInt (encodeCommands cs ! 0) \<noteq> nvgWINDING
      \<longrightarrow> \<not> length (encodeCommands cs) < 2"
    by (cases c) (simp_all add: cs encodeCommands_Cons)
  show ?thesis
    using st nonempty len
    by (simp add: appendCommand_def getState_def Let_def resultCommands_def
        xformVals_encodeCommands)
qed

lemma transform_calls_keep_commands:
  assumes st: "states ctx \<noteq> []"
  shows "resultCommands (Translate ctx tx ty) = Some (commands ctx)"
    and "resultCommands (Rotate ctx angle) = Some (commands ctx)"
    and "resultCommands (Scale ctx sx sy) = Some (commands ctx)"
    and "resultCommands (SetTransform ctx t) = Some (commands ctx)"
    and "resultCommands (ResetTransform ctx) = Some (commands ctx)"
  using st
  by (simp_all add: Translate_def Rotate_def Scale_def SetTransform_def ResetTransform_def
      getState_def setState_def resultCommands_def)

text \<open>
  C2. Recording a sequence of path commands appends it to the command buffer with every
  position operand mapped through the transform of the current state at that moment: the
  point of a MoveTo or LineTo, the two control points and the end point of a BezierTo,
  nothing of a ClosePath or SetWinding. The calls that change the transform afterwards
  (Translate, Rotate, Scale, SetTransform, ResetTransform) return and leave the command
  buffer as it is.
\<close>

theorem appendCommand_transform_at_record_time:
  "(states ctx \<noteq> [] \<and> cs \<noteq> [] \<longrightarrow>
      resultCommands (appendCommand ctx (encodeCommands cs)) =
        Some (commands ctx @
              encodeCommands (map (transformCommand (xform (last (states ctx)))) cs))) \<and>
   (states ctx \<noteq> [] \<longrightarrow>
      resultCommands (Translate ctx tx ty) = Some (commands ctx) \<and>
      resultCommands (Rotate ctx angle) = Some (commands ctx) \<and>
      resultCommands (Scale ctx sx sy) = Some (commands ctx) \<and>
      resultCommands (SetTransform ctx t) = Some (commands ctx) \<and>
      resultCommands (ResetTransform ctx) = Some (commands ctx))"
proof (intro conjI impI)
  assume "states ctx \<noteq> [] \<and> cs \<noteq> []"
  then show "resultCommands (appendCommand ctx (encodeCommands cs)) =
        Some (commands ctx @
              encodeCommands (map (transformCommand (xform (last (states ctx)))) cs))"
    by (simp add: appendCommand_encode)
qed (simp_all add: transform_calls_keep_commands)

theorem appendCommand_transform_at_record_time_witness:
  "resultCommands (appendCommand ctxT
      (encodeCommands [CmdMoveTo 1 2, CmdBezierTo 1 1 2 2 3 3, CmdClose, CmdWinding 2])) =
     Some [0, 11, 22, 2, 11, 21, 12, 22, 13, 23, 3, 4, 2] \<and>
   resultCommands (Translate (ctxT\<lparr>commands := [0, 11, 22]\<rparr>) 5 5) = Some [0, 11, 22] \<and>
   resultCommands (Rotate (ctxT\<lparr>commands := [0, 11, 22]\<rparr>) 1) = Some [0, 11, 22] \<and>
   resultCommands (Scale (ctxT\<lparr>commands := [0, 11, 22]\<rparr>) 3 3) = Some [0, 11, 22] \<and>
   resultCommands (SetTransform (ctxT\<lparr>commands := [0, 11, 22]\<rparr>) IdentityMatrix) =
     Some [0, 11, 22] \<and>
   resultCommands (ResetTransform (ctxT\<lparr>commands := [0, 11, 22]\<rparr>)) = Some [0, 11, 22]"
  using appendCommand_transform_at_record_time
      [of ctxT "[CmdMoveTo 1 2, CmdBezierTo 1 1 2 2 3 3, CmdClose, CmdWinding 2]"]
    appendCommand_transform_at_record_time
      [of "ctxT\<lparr>commands := [0, 11, 22]\<rparr>" "[]" 5 5 1 3 3 IdentityMatrix]
  by (simp add: ctxT_def ctx0_def encodeCommands_def TransformPoint_def TranslateMatrix_def
       nvgMOVETO_def nvgLINETO_def nvgBEZIERTO_def nvgCLOSE_def nvgWINDING_def)

section \<open>Properties of arcs\<close>

lemma PI_pos: "0 < PI"
  by (simp add: PI_def)

lemma arcWrapUp_nonneg: "da \<ge> 0 \<Longrightarrow> arcWrapUp da = da"
  by (subst arcWrapUp.simps) simp

lemma arcWrapDown_nonpos: "da \<le> 0 \<Longrightarrow> arcWrapDown da = da"
  by (subst arcWrapDown.simps) simp

text \<open>A clockwise arc from angle 0 to 0.7 pi (126 degrees), around the origin, radius 1.\<close>

lemma arc126_sweep: "arcClampAngles 0 (PI * 0.7) Clockwise = PI * 0.7"
  using PI_pos by (simp add: arcClampAngles_def absF_def arcWrapUp_nonneg)

lemma arc126_divs: "arcDivs (PI * 0.7) = 1"
proof -
  have v: "absF (PI * 0.7) / (PI * 0.5) + 0.5 = 19 / 10"
    using PI_pos by (simp add: absF_def field_simps)
  have t: "toInt (absF (PI * 0.7) / (PI * 0.5) + 0.5) = 1"
    unfolding v by (simp add: toInt_def)
  show ?thesis unfolding arcDivs_def t by (simp add: clampI_def)
qed

lemma arc126_sin: "sin (PI * 0.7 / 2) \<noteq> 0"
proof -
  have "0 < sin (PI * 0.7 / 2)" using PI_pos by (intro sin_gt_zero) (simp_all add: PI_def)
  then show ?thesis by simp
qed

lemma arcLoop_one_division:
  "arcLoop 0 0 1 0 da kappa move 1 0 (0, 0, 0, 0) [] =
     [of_int move, 1, 0,
      of_int nvgBEZIERTO, 1, kappa, cos da + sin da * kappa, sin da - cos da * kappa,
      cos da, sin da]"
  by (simp add: sinCosF_def Let_def)

lemma arc126_unfold:
  "Arc ctxI 0 0 1 0 (PI * 0.7) Clockwise =
   appendCommand ctxI (arcLoop 0 0 1 0 (PI * 0.7)
      (absF (4 / 3 * (1 - cos (PI * 0.7 / 2)) / sin (PI * 0.7 / 2))) nvgMOVETO 1 0
      (0, 0, 0, 0) [])"
proof -
  have c: "commands ctxI = []" by (simp add: ctxI_def ctx0_def)
  have d: "Clockwise \<noteq> CounterClockwise" by (simp add: Clockwise_def CounterClockwise_def)
  show ?thesis
    unfolding Arc_def arc126_sweep arc126_divs Let_def sinCosF_def
    using arc126_sin c d by simp
qed

lemma appendCommand_move_bezier_opcodes:
  "map_option commandOpcodes (resultCommands (appendCommand ctxI
      [of_int nvgMOVETO, a, b, of_int nvgBEZIERTO, c, d, e, f, g, h])) =
    Some [nvgMOVETO, nvgBEZIERTO]"
  by (simp add: ctxI_def ctx0_def appendCommand_def getState_def resultCommands_def
        opcodes_distinct)

text \<open>
  C4. \<^verbatim>\<open>Arc\<close> at the input (cx, cy, r, a0, a1, dir) = (0, 0, 1, 0, 0.7 pi, Clockwise), on
  an empty command buffer: the clamped sweep is 0.7 pi, the number of divisions is one,
  so the single segment spans 0.7 pi, which is more than a quarter turn (0.5 pi); the
  call records one MoveTo and one BezierTo.
\<close>

theorem Arc_segment_exceeds_quarter_turn:
  "arcClampAngles 0 (PI * 0.7) Clockwise = PI * 0.7 \<and>
   arcDivs (arcClampAngles 0 (PI * 0.7) Clockwise) = 1 \<and>
   absF (arcClampAngles 0 (PI * 0.7) Clockwise)
     / of_int (arcDivs (arcClampAngles 0 (PI * 0.7) Clockwise)) > PI * 0.5 \<and>
   map_option commandOpcodes (resultCommands (Arc ctxI 0 0 1 0 (PI * 0.7) Clockwise)) =
     Some [nvgMOVETO, nvgBEZIERTO]"
proof (intro conjI)
  show "arcClampAngles 0 (PI * 0.7) Clockwise = PI * 0.7" by (rule arc126_sweep)
  show "arcDivs (arcClampAngles 0 (PI * 0.7) Clockwise) = 1"
    unfolding arc126_sweep by (rule arc126_divs)
  show "absF (arcClampAngles 0 (PI * 0.7) Clockwise)
     / of_int (arcDivs (arcClampAngles 0 (PI * 0.7) Clockwise)) > PI * 0.5"
    unfolding arc126_sweep arc126_divs using PI_pos by (simp add: absF_def)
  show "map_option commandOpcodes (resultCommands (Arc ctxI 0 0 1 0 (PI * 0.7) Clockwise)) =
     Some [nvgMOVETO, nvgBEZIERTO]"
    unfolding arc126_unfold arcLoop_one_division by (rule appendCommand_move_bezier_opcodes)
qed

section \<open>Properties of arcs through a corner\<close>

lemma LineTo_records:
  assumes "states ctx \<noteq> []"
  shows "resultCommands (LineTo ctx x1 y1) =
     Some (commands ctx @ [of_int nvgLINETO,
        fst (TransformPoint (xform (last (states ctx))) x1 y1),
        snd (TransformPoint (xform (last (states ctx))) x1 y1)])"
  using assms
  by (simp add: LineTo_def appendCommand_def getState_def resultCommands_def opcodes_distinct
      Let_def)

lemma ArcTo_degenerate:
  assumes "commands ctx \<noteq> []" and "arcToDegenerate g ctx x1 y1 x2 y2 radius"
  shows "ArcTo g ctx x1 y1 x2 y2 radius = LineTo ctx x1 y1"
  using assms by (simp add: ArcTo_def arcToDegenerate_def Let_def)

lemma ArcTo_far_tangent:
  assumes "commands ctx \<noteq> []"
    and "exceeds (arcToTangentDistance g ctx x1 y1 x2 y2 radius) 10000"
  shows "ArcTo g ctx x1 y1 x2 y2 radius = LineTo ctx x1 y1"
proof -
  obtain dx0 dy0 dx1 dy1 where
    legs: "arcToLegs g (commandX ctx) (commandY ctx) x1 y1 x2 y2 = (dx0, dy0, dx1, dy1)"
    by (cases "arcToLegs g (commandX ctx) (commandY ctx) x1 y1 x2 y2") auto
  from assms(2) have
    q: "exceeds (divF radius (tanF g (acosF g (dx0 * dx1 + dy0 * dy1) / 2))) 10000"
    by (simp add: arcToTangentDistance_def legs Let_def)
  show ?thesis
    unfolding ArcTo_def Let_def legs
    using assms(1) q by simp
qed

lemma euclid_fields:
  "ptEquals euclid = euclidPtEquals" "distPtSeg euclid = euclidDistPtSeg"
  "normalize euclid = euclidNormalize" "cross euclid = euclidCross"
  "acosF euclid = arccos" "tanF euclid = tan" "atan2F euclid = euclidAtan2"
  by (simp_all add: euclid_def)

lemma ctxAt_fields:
  "commands (ctxAt px py) = [of_int nvgMOVETO, px, py]" "commandX (ctxAt px py) = px"
  "commandY (ctxAt px py) = py" "distTol (ctxAt px py) = 1 / 100"
  "states (ctxAt px py) = [zeroState\<lparr>xform := IdentityMatrix\<rparr>]"
  by (simp_all add: ctxAt_def ctxI_def ctx0_def)

text \<open>
  What \<open>euclidDistPtSeg\<close> computes is the least squared distance between the point and
  a point of the segment: it is not above the squared distance to any point
  \<open>a + t (b - a)\<close> with \<open>t\<close> between 0 and 1.
\<close>

lemma segment_quadratic:
  "(ax + u * (bx - ax) - px) * (ax + u * (bx - ax) - px) +
   (ay + u * (by - ay) - py) * (ay + u * (by - ay) - py) =
   ((bx - ax) * (bx - ax) + (by - ay) * (by - ay)) * u * u
   - 2 * ((bx - ax) * (px - ax) + (by - ay) * (py - ay)) * u
   + ((px - ax) * (px - ax) + (py - ay) * (py - ay))" for u :: real
  by (simp add: algebra_simps)

lemma euclidDistPtSeg_clamped:
  "euclidDistPtSeg px py ax ay bx by =
    (let d = (bx - ax) * (bx - ax) + (by - ay) * (by - ay);
         t0 = (bx - ax) * (px - ax) + (by - ay) * (py - ay);
         t1 = (if d > 0 then t0 / d else t0);
         t = (if t1 < 0 then 0 else if t1 > 1 then 1 else t1)
     in d * t * t - 2 * t0 * t + ((px - ax) * (px - ax) + (py - ay) * (py - ay)))"
  unfolding euclidDistPtSeg_def Let_def by (simp only: segment_quadratic)

lemma quadratic_clamped_min:
  fixes d t0 c t tc :: real
  assumes d: "0 \<le> d" and z: "d = 0 \<longrightarrow> t0 = 0" and t: "0 \<le> t" "t \<le> 1"
    and tc: "tc = (if (if d > 0 then t0 / d else t0) < 0 then 0
                   else if (if d > 0 then t0 / d else t0) > 1 then 1
                   else (if d > 0 then t0 / d else t0))"
  shows "d * tc * tc - 2 * t0 * tc + c \<le> d * t * t - 2 * t0 * t + c"
proof (cases "d > 0")
  case False
  with d z have "d = 0" "t0 = 0" by auto
  then show ?thesis by simp
next
  case True
  define t1 where "t1 = t0 / d"
  have t0: "t0 = d * t1" using True by (simp add: t1_def)
  have tc1: "tc = (if t1 < 0 then 0 else if t1 > 1 then 1 else t1)"
    using True by (simp add: tc t1_def)
  consider (neg) "t1 < 0" | (big) "t1 > 1" | (mid) "0 \<le> t1" "t1 \<le> 1" by linarith
  then show ?thesis
  proof cases
    case neg
    then have e: "tc = 0" by (simp add: tc1)
    have "0 \<le> t * (d * t - 2 * d * t1)"
    proof (rule mult_nonneg_nonneg)
      show "0 \<le> t" by (rule t(1))
      have "0 \<le> d * t" using d t(1) by simp
      moreover have "d * t1 \<le> 0" using True neg by (simp add: mult_le_0_iff)
      ultimately show "0 \<le> d * t - 2 * d * t1" by simp
    qed
    then have "0 \<le> d * t * t - 2 * t0 * t" unfolding t0 by (simp add: algebra_simps)
    then show ?thesis unfolding e by simp
  next
    case big
    then have e: "tc = 1" by (simp add: tc1)
    have dt: "d < d * t1" using True big by simp
    have "0 \<le> (1 - t) * (2 * d * t1 - d * (t + 1))"
    proof (rule mult_nonneg_nonneg)
      show "0 \<le> 1 - t" using t(2) by simp
      have "d * (t + 1) \<le> d * 2" using True t(2) by simp
      with dt show "0 \<le> 2 * d * t1 - d * (t + 1)" by simp
    qed
    then have "d - 2 * t0 \<le> d * t * t - 2 * t0 * t"
      unfolding t0 by (simp add: algebra_simps)
    then show ?thesis unfolding e by simp
  next
    case mid
    then have e: "tc = t1" by (simp add: tc1)
    have "0 \<le> d * ((t - t1) * (t - t1))" using d by simp
    then have "d * t1 * t1 - 2 * t0 * t1 \<le> d * t * t - 2 * t0 * t"
      unfolding t0 by (simp add: algebra_simps)
    then show ?thesis unfolding e by simp
  qed
qed

lemma euclidDistPtSeg_le:
  assumes "0 \<le> t" and "t \<le> 1"
  shows "euclidDistPtSeg px py ax ay bx by \<le>
         (ax + t * (bx - ax) - px) * (ax + t * (bx - ax) - px) +
         (ay + t * (by - ay) - py) * (ay + t * (by - ay) - py)"
proof -
  let ?d = "(bx - ax) * (bx - ax) + (by - ay) * (by - ay)"
  let ?t0 = "(bx - ax) * (px - ax) + (by - ay) * (py - ay)"
  have d: "0 \<le> ?d" by simp
  have z: "?d = 0 \<longrightarrow> ?t0 = 0"
  proof
    assume "?d = 0"
    then have "bx - ax = 0 \<and> by - ay = 0" by (simp add: sum_squares_eq_zero_iff)
    then show "?t0 = 0" by simp
  qed
  show ?thesis
    unfolding euclidDistPtSeg_clamped segment_quadratic [of ax t] Let_def
    by (rule quadratic_clamped_min [OF d z assms refl])
qed

lemma ArcTo_near_segment:
  assumes "commands ctx \<noteq> []" and "0 \<le> t" and "t \<le> 1"
    and "(commandX ctx + t * (x2 - commandX ctx) - x1) *
         (commandX ctx + t * (x2 - commandX ctx) - x1) +
         (commandY ctx + t * (y2 - commandY ctx) - y1) *
         (commandY ctx + t * (y2 - commandY ctx) - y1) < distTol ctx * distTol ctx"
  shows "ArcTo euclid ctx x1 y1 x2 y2 radius = LineTo ctx x1 y1"
proof -
  have "distPtSeg euclid x1 y1 (commandX ctx) (commandY ctx) x2 y2 < distTol ctx * distTol ctx"
    unfolding euclid_fields
    using euclidDistPtSeg_le [OF assms(2) assms(3), of x1 y1 "commandX ctx" "commandY ctx" x2 y2]
      assms(4) by (rule le_less_trans)
  then have "arcToDegenerate euclid ctx x1 y1 x2 y2 radius"
    by (simp add: arcToDegenerate_def)
  with assms(1) show ?thesis by (rule ArcTo_degenerate)
qed

text \<open>
  C6. On a non-empty command buffer, with a state on the stack: when one of the four
  degenerate tests of \<^verbatim>\<open>ArcTo\<close> holds (the current point equals (x1,y1) within the
  tolerance, (x1,y1) equals (x2,y2) within the tolerance, \<^verbatim>\<open>distPtSeg\<close> of (x1,y1)
  and the segment from the current point to (x2,y2) is below the squared tolerance, the
  radius is below the tolerance), or the tangent distance \<^verbatim>\<open>radius / tanF(a/2.0)\<close>
  exceeds 10000, plus infinity included, the call is the call \<^verbatim>\<open>LineTo(x1, y1)\<close>: it
  returns, and appends exactly the LineTo opcode with the transformed point to the
  command buffer. This holds whatever the geometric helpers compute. With the Euclidean
  helpers the third test has its geometric meaning: when some point of the segment from
  the current point to (x2,y2) is closer to (x1,y1) than the tolerance, the call is the
  call \<^verbatim>\<open>LineTo(x1, y1)\<close>.
\<close>

theorem ArcTo_degenerate_is_LineTo:
  "(commands ctx \<noteq> [] \<and> states ctx \<noteq> [] \<and>
    (arcToDegenerate g ctx x1 y1 x2 y2 radius \<or>
     exceeds (arcToTangentDistance g ctx x1 y1 x2 y2 radius) 10000) \<longrightarrow>
    ArcTo g ctx x1 y1 x2 y2 radius = LineTo ctx x1 y1 \<and>
    resultCommands (ArcTo g ctx x1 y1 x2 y2 radius) =
      Some (commands ctx @ [of_int nvgLINETO,
         fst (TransformPoint (xform (last (states ctx))) x1 y1),
         snd (TransformPoint (xform (last (states ctx))) x1 y1)])) \<and>
   (commands ctx \<noteq> [] \<and> states ctx \<noteq> [] \<and> 0 \<le> t \<and> t \<le> 1 \<and>
    (commandX ctx + t * (x2 - commandX ctx) - x1) *
    (commandX ctx + t * (x2 - commandX ctx) - x1) +
    (commandY ctx + t * (y2 - commandY ctx) - y1) *
    (commandY ctx + t * (y2 - commandY ctx) - y1) < distTol ctx * distTol ctx \<longrightarrow>
    ArcTo euclid ctx x1 y1 x2 y2 radius = LineTo ctx x1 y1 \<and>
    resultCommands (ArcTo euclid ctx x1 y1 x2 y2 radius) =
      Some (commands ctx @ [of_int nvgLINETO,
         fst (TransformPoint (xform (last (states ctx))) x1 y1),
         snd (TransformPoint (xform (last (states ctx))) x1 y1)]))"
proof (intro conjI impI)
  assume h: "commands ctx \<noteq> [] \<and> states ctx \<noteq> [] \<and>
    (arcToDegenerate g ctx x1 y1 x2 y2 radius \<or>
     exceeds (arcToTangentDistance g ctx x1 y1 x2 y2 radius) 10000)"
  then have c: "commands ctx \<noteq> []" and s: "states ctx \<noteq> []" by simp_all
  show eq: "ArcTo g ctx x1 y1 x2 y2 radius = LineTo ctx x1 y1"
  proof (cases "arcToDegenerate g ctx x1 y1 x2 y2 radius")
    case True
    with c show ?thesis by (rule ArcTo_degenerate)
  next
    case False
    with h have "exceeds (arcToTangentDistance g ctx x1 y1 x2 y2 radius) 10000" by simp
    with c show ?thesis by (rule ArcTo_far_tangent)
  qed
  show "resultCommands (ArcTo g ctx x1 y1 x2 y2 radius) =
      Some (commands ctx @ [of_int nvgLINETO,
         fst (TransformPoint (xform (last (states ctx))) x1 y1),
         snd (TransformPoint (xform (last (states ctx))) x1 y1)])"
    unfolding eq using s by (rule LineTo_records)
next
  assume h: "commands ctx \<noteq> [] \<and> states ctx \<noteq> [] \<and> 0 \<le> t \<and> t \<le> 1 \<and>
    (commandX ctx + t * (x2 - commandX ctx) - x1) *
    (commandX ctx + t * (x2 - commandX ctx) - x1) +
    (commandY ctx + t * (y2 - commandY ctx) - y1) *
    (commandY ctx + t * (y2 - commandY ctx) - y1) < distTol ctx * distTol ctx"
  then have c: "commands ctx \<noteq> []" and s: "states ctx \<noteq> []" and t: "0 \<le> t" "t \<le> 1"
    and n: "(commandX ctx + t * (x2 - commandX ctx) - x1) *
    (commandX ctx + t * (x2 - commandX ctx) - x1) +
    (commandY ctx + t * (y2 - commandY ctx) - y1) *
    (commandY ctx + t * (y2 - commandY ctx) - y1) < distTol ctx * distTol ctx"
    by simp_all
  from c t n show eq: "ArcTo euclid ctx x1 y1 x2 y2 radius = LineTo ctx x1 y1"
    by (rule ArcTo_near_segment)
  show "resultCommands (ArcTo euclid ctx x1 y1 x2 y2 radius) =
      Some (commands ctx @ [of_int nvgLINETO,
         fst (TransformPoint (xform (last (states ctx))) x1 y1),
         snd (TransformPoint (xform (last (states ctx))) x1 y1)])"
    unfolding eq using s by (rule LineTo_records)
qed

text \<open>
  Four calls: a corner on the current point; a right-angled corner of radius 20000, whose
  tangent distance is 20000; after \<^verbatim>\<open>MoveTo(1, 0)\<close>, the call
  \<^verbatim>\<open>ArcTo(0, 0, 2, 0, 5)\<close>, where the two legs point the same way, none of the four
  tests holds, the half angle has tangent zero and the tangent distance is plus infinity;
  and a corner that lies a thousandth off the middle of the segment between the two
  other points.
\<close>

lemma arcTo_coincident_degenerate: "arcToDegenerate euclid (ctxAt 0 0) 0 0 10 0 5"
  by (simp add: arcToDegenerate_def euclid_fields ctxAt_fields euclidPtEquals_def)

lemma arcTo_corner_legs: "arcToLegs euclid 1 0 0 0 0 1 = (1, 0, 0, 1)"
  by (simp add: arcToLegs_def euclid_fields euclidNormalize_def Let_def)

lemma arcTo_corner_not_degenerate: "\<not> arcToDegenerate euclid (ctxAt 1 0) 0 0 0 1 20000"
  by (simp add: arcToDegenerate_def euclid_fields ctxAt_fields euclidPtEquals_def
      euclidDistPtSeg_def Let_def)

lemma arcTo_corner_tangent_distance:
  "arcToTangentDistance euclid (ctxAt 1 0) 0 0 0 1 20000 = Finite 20000"
  by (simp add: arcToTangentDistance_def ctxAt_fields arcTo_corner_legs Let_def euclid_fields
      tan_45 divF_def)

lemma arcTo_fold_legs: "arcToLegs euclid 1 0 0 0 2 0 = (1, 0, 1, 0)"
  by (simp add: arcToLegs_def euclid_fields euclidNormalize_def Let_def)

lemma arcTo_fold_not_degenerate: "\<not> arcToDegenerate euclid (ctxAt 1 0) 0 0 2 0 5"
  by (simp add: arcToDegenerate_def euclid_fields ctxAt_fields euclidPtEquals_def
      euclidDistPtSeg_def Let_def)

lemma arcTo_fold_tangent_distance:
  "arcToTangentDistance euclid (ctxAt 1 0) 0 0 2 0 5 = PosInf"
  by (simp add: arcToTangentDistance_def ctxAt_fields arcTo_fold_legs Let_def euclid_fields
      divF_def)

theorem ArcTo_degenerate_is_LineTo_witness:
  "ArcTo euclid (ctxAt 0 0) 0 0 10 0 5 = LineTo (ctxAt 0 0) 0 0 \<and>
   resultCommands (ArcTo euclid (ctxAt 0 0) 0 0 10 0 5) =
     Some [of_int nvgMOVETO, 0, 0, of_int nvgLINETO, 0, 0] \<and>
   arcToTangentDistance euclid (ctxAt 1 0) 0 0 0 1 20000 = Finite 20000 \<and>
   ArcTo euclid (ctxAt 1 0) 0 0 0 1 20000 = LineTo (ctxAt 1 0) 0 0 \<and>
   resultCommands (ArcTo euclid (ctxAt 1 0) 0 0 0 1 20000) =
     Some [of_int nvgMOVETO, 1, 0, of_int nvgLINETO, 0, 0] \<and>
   \<not> arcToDegenerate euclid (ctxAt 1 0) 0 0 2 0 5 \<and>
   arcToTangentDistance euclid (ctxAt 1 0) 0 0 2 0 5 = PosInf \<and>
   ArcTo euclid (ctxAt 1 0) 0 0 2 0 5 = LineTo (ctxAt 1 0) 0 0 \<and>
   resultCommands (ArcTo euclid (ctxAt 1 0) 0 0 2 0 5) =
     Some [of_int nvgMOVETO, 1, 0, of_int nvgLINETO, 0, 0] \<and>
   ArcTo euclid (ctxAt (- 1) 0) 0 (1 / 1000) 1 0 5 = LineTo (ctxAt (- 1) 0) 0 (1 / 1000) \<and>
   resultCommands (ArcTo euclid (ctxAt (- 1) 0) 0 (1 / 1000) 1 0 5) =
     Some [of_int nvgMOVETO, - 1, 0, of_int nvgLINETO, 0, 1 / 1000]"
proof -
  have ha: "commands (ctxAt 0 0) \<noteq> [] \<and> states (ctxAt 0 0) \<noteq> [] \<and>
     (arcToDegenerate euclid (ctxAt 0 0) 0 0 10 0 5 \<or>
      exceeds (arcToTangentDistance euclid (ctxAt 0 0) 0 0 10 0 5) 10000)"
    using arcTo_coincident_degenerate by (simp add: ctxAt_fields)
  have hb: "commands (ctxAt 1 0) \<noteq> [] \<and> states (ctxAt 1 0) \<noteq> [] \<and>
     (arcToDegenerate euclid (ctxAt 1 0) 0 0 0 1 20000 \<or>
      exceeds (arcToTangentDistance euclid (ctxAt 1 0) 0 0 0 1 20000) 10000)"
    by (simp add: ctxAt_fields arcTo_corner_tangent_distance)
  have hc: "commands (ctxAt 1 0) \<noteq> [] \<and> states (ctxAt 1 0) \<noteq> [] \<and>
     (arcToDegenerate euclid (ctxAt 1 0) 0 0 2 0 5 \<or>
      exceeds (arcToTangentDistance euclid (ctxAt 1 0) 0 0 2 0 5) 10000)"
    by (simp add: ctxAt_fields arcTo_fold_tangent_distance)
  have hd: "commands (ctxAt (- 1) 0) \<noteq> [] \<and> states (ctxAt (- 1) 0) \<noteq> [] \<and>
     0 \<le> (1 / 2 :: real) \<and> (1 / 2 :: real) \<le> 1 \<and>
     (commandX (ctxAt (- 1) 0) + 1 / 2 * (1 - commandX (ctxAt (- 1) 0)) - 0) *
     (commandX (ctxAt (- 1) 0) + 1 / 2 * (1 - commandX (ctxAt (- 1) 0)) - 0) +
     (commandY (ctxAt (- 1) 0) + 1 / 2 * (0 - commandY (ctxAt (- 1) 0)) - 1 / 1000) *
     (commandY (ctxAt (- 1) 0) + 1 / 2 * (0 - commandY (ctxAt (- 1) 0)) - 1 / 1000)
     < distTol (ctxAt (- 1) 0) * distTol (ctxAt (- 1) 0)"
    by (simp add: ctxAt_fields)
  note a = ArcTo_degenerate_is_LineTo [THEN conjunct1, THEN mp, OF ha]
  note b = ArcTo_degenerate_is_LineTo [THEN conjunct1, THEN mp, OF hb]
  note c = ArcTo_degenerate_is_LineTo [THEN conjunct1, THEN mp, OF hc]
  note d = ArcTo_degenerate_is_LineTo [where radius = 5, THEN conjunct2, THEN mp, OF hd]
  have lists:
    "commands (ctxAt 0 0) @ [of_int nvgLINETO,
        fst (TransformPoint (xform (last (states (ctxAt 0 0)))) 0 0),
        snd (TransformPoint (xform (last (states (ctxAt 0 0)))) 0 0)] =
      [of_int nvgMOVETO, 0, 0, of_int nvgLINETO, 0, 0]"
    "commands (ctxAt 1 0) @ [of_int nvgLINETO,
        fst (TransformPoint (xform (last (states (ctxAt 1 0)))) 0 0),
        snd (TransformPoint (xform (last (states (ctxAt 1 0)))) 0 0)] =
      [of_int nvgMOVETO, 1, 0, of_int nvgLINETO, 0, 0]"
    "commands (ctxAt (- 1) 0) @ [of_int nvgLINETO,
        fst (TransformPoint (xform (last (states (ctxAt (- 1) 0)))) 0 (1 / 1000)),
        snd (TransformPoint (xform (last (states (ctxAt (- 1) 0)))) 0 (1 / 1000))] =
      [of_int nvgMOVETO, - 1, 0, of_int nvgLINETO, 0, 1 / 1000]"
    by (simp_all add: ctxAt_fields TransformPoint_def IdentityMatrix_def)
  from a b c d arcTo_corner_tangent_distance arcTo_fold_not_degenerate
    arcTo_fold_tangent_distance
  show ?thesis unfolding lists by fast
qed

text \<open>
  After \<^verbatim>\<open>MoveTo(2, 0)\<close>, the call \<^verbatim>\<open>ArcTo(0, 0, x2, y2, 1)\<close> with
  \<open>(x2, y2) = (999999 / 1000001, 2000 / 1000001)\<close>, a point at distance 1 from the
  origin, about 0.002 above the x axis. The two legs fold back on each other under an
  angle whose half has tangent 1/1000.
\<close>

lemma hairpin_legs:
  "arcToLegs euclid 2 0 0 0 (999999 / 1000001) (2000 / 1000001) =
     (1, 0, 999999 / 1000001, 2000 / 1000001)"
  by (simp add: arcToLegs_def euclid_fields euclidNormalize_def Let_def)

lemma hairpin_not_degenerate:
  "\<not> arcToDegenerate euclid (ctxAt 2 0) 0 0 (999999 / 1000001) (2000 / 1000001) 1"
  by (simp add: arcToDegenerate_def euclid_fields ctxAt_fields euclidPtEquals_def
      euclidDistPtSeg_def Let_def)

lemma tan_half_arccos:
  assumes "- 1 < c" and "c \<le> 1"
  shows "tan (arccos c / 2) = sqrt (1 - c\<^sup>2) / (c + 1)"
proof -
  have "tan (arccos c / 2) = sin (2 * (arccos c / 2)) / (cos (2 * (arccos c / 2)) + 1)"
    by (rule tan_half)
  also have "\<dots> = sin (arccos c) / (cos (arccos c) + 1)" by simp
  also have "\<dots> = sqrt (1 - c\<^sup>2) / (c + 1)"
    using assms by (simp add: sin_arccos cos_arccos)
  finally show ?thesis .
qed

lemma hairpin_tan: "tan (arccos (999999 / 1000001) / 2) = 1 / 1000"
proof -
  have "sqrt (1 - (999999 / 1000001 :: real)\<^sup>2) = 2000 / 1000001"
    by (rule real_sqrt_unique) (simp_all add: power2_eq_square)
  then show ?thesis by (simp add: tan_half_arccos)
qed

lemma hairpin_distance:
  "arcToTangentDistance euclid (ctxAt 2 0) 0 0 (999999 / 1000001) (2000 / 1000001) 1 =
   Finite 1000"
  by (simp add: arcToTangentDistance_def ctxAt_fields hairpin_legs Let_def euclid_fields
      hairpin_tan divF_def)

lemma hairpin_unfold:
  "ArcTo euclid (ctxAt 2 0) 0 0 (999999 / 1000001) (2000 / 1000001) 1 =
   Arc (ctxAt 2 0) 1000 1 1 (euclidAtan2 (- 1) 0)
     (euclidAtan2 (999999 / 1000001) (- (2000 / 1000001))) CounterClockwise"
proof -
  have nd: "\<not> (ptEquals euclid 2 0 0 0 (1 / 100) \<or>
     ptEquals euclid 0 0 (999999 / 1000001) (2000 / 1000001) (1 / 100) \<or>
     distPtSeg euclid 0 0 2 0 (999999 / 1000001) (2000 / 1000001) < 1 / 100 * (1 / 100) \<or>
     (1::real) < 1 / 100)"
    using hairpin_not_degenerate by (simp add: arcToDegenerate_def ctxAt_fields)
  have t: "tanF euclid (acosF euclid (999999 / 1000001) / 2) = 1 / 1000"
    by (simp add: euclid_fields hairpin_tan)
  have cr: "\<not> cross euclid 1 0 (999999 / 1000001) (2000 / 1000001) > 0"
    by (simp add: euclid_fields euclidCross_def)
  have at: "atan2F euclid = euclidAtan2" by (simp add: euclid_fields)
  show ?thesis
    unfolding ArcTo_def Let_def ctxAt_fields hairpin_legs
    using nd cr by (simp add: t divF_def at)
qed

lemma hairpin_angles:
  "euclidAtan2 (- 1) 0 = - pi / 2"
  "euclidAtan2 (999999 / 1000001) (- (2000 / 1000001)) = pi - arctan (999999 / 2000)"
  by (simp_all add: euclidAtan2_def arctan_minus)

lemma hairpin_theta:
  "pi / 4 \<le> arctan (999999 / 2000)" "arctan (999999 / 2000) < pi / 2"
proof -
  have "arctan 1 \<le> arctan (999999 / 2000)" by (rule arctan_monotone') simp
  then show "pi / 4 \<le> arctan (999999 / 2000)" by (simp add: arctan_one)
  show "arctan (999999 / 2000) < pi / 2" by (rule arctan_ubound)
qed

lemma ccw_sweep:
  assumes "pi / 4 \<le> th" and "th < pi / 2"
  shows "arcClampAngles (- pi / 2) (pi - th) CounterClockwise = - pi / 2 - th"
proof -
  have d: "CounterClockwise \<noteq> Clockwise" by (simp add: Clockwise_def CounterClockwise_def)
  have a: "\<not> absF (pi - th - - pi / 2) \<ge> PI * 2"
    using assms by (simp add: absF_def PI_def)
  have pos: "pi - th - - pi / 2 > 0" using assms by simp
  have "arcWrapDown (pi - th - - pi / 2) = arcWrapDown (pi - th - - pi / 2 - PI * 2)"
    using pos by (subst arcWrapDown.simps) simp
  also have "pi - th - - pi / 2 - PI * 2 = - pi / 2 - th" by (simp add: PI_def)
  also have "arcWrapDown (- pi / 2 - th) = - pi / 2 - th"
    using assms by (intro arcWrapDown_nonpos) simp
  finally have w: "arcWrapDown (pi - th - - pi / 2) = - pi / 2 - th" .
  show ?thesis unfolding arcClampAngles_def Let_def using d a w by simp
qed

lemma ccw_divs:
  assumes "pi / 4 \<le> th" and "th < pi / 2"
  shows "arcDivs (- pi / 2 - th) = 2"
proof -
  define q where "q = th / (pi / 2)"
  have ab: "absF (- pi / 2 - th) = pi / 2 + th" using assms by (simp add: absF_def)
  have v: "absF (- pi / 2 - th) / (PI * 0.5) + 0.5 = 3 / 2 + q"
    unfolding ab PI_def q_def using pi_gt_zero by (simp add: field_simps)
  have lo: "1 / 2 \<le> q" unfolding q_def using assms pi_gt_zero by (simp add: field_simps)
  have hi: "q < 1" unfolding q_def using assms pi_gt_zero by (simp add: field_simps)
  have "\<lfloor>3 / 2 + q\<rfloor> = 2"
  proof (rule floor_unique)
    show "of_int 2 \<le> 3 / 2 + q" using lo by simp
    show "3 / 2 + q < of_int 2 + 1" using hi by simp
  qed
  then have t: "toInt (absF (- pi / 2 - th) / (PI * 0.5) + 0.5) = 2"
    unfolding v using lo by (simp add: toInt_def)
  show ?thesis unfolding arcDivs_def t by (simp add: clampI_def)
qed

lemma ccw_sin:
  assumes "pi / 4 \<le> th" and "th < pi / 2"
  shows "sin ((- pi / 2 - th) / 4) \<noteq> 0"
proof -
  have "0 < sin ((pi / 2 + th) / 4)"
    using assms pi_gt_zero by (intro sin_gt_zero) simp_all
  moreover have "sin ((- pi / 2 - th) / 4) = - sin ((pi / 2 + th) / 4)"
  proof -
    have "(- pi / 2 - th) / 4 = - ((pi / 2 + th) / 4)" by (simp add: field_simps)
    then show ?thesis by (simp only: sin_minus)
  qed
  ultimately show ?thesis by simp
qed

lemma arcLoop_two_divisions:
  "\<exists>v1 v2 v3 v4 v5 v6 v7 v8 v9 v10 v11 v12 v13 v14.
     arcLoop cx cy r a0 da kappa move 2 0 (0, 0, 0, 0) [] =
       [of_int move, v1, v2, of_int nvgBEZIERTO, v3, v4, v5, v6, v7, v8,
        of_int nvgBEZIERTO, v9, v10, v11, v12, v13, v14]"
  by (simp add: sinCosF_def Let_def)

lemma appendCommand_line_two_beziers_opcodes:
  "map_option commandOpcodes (resultCommands (appendCommand (ctxAt px py)
      [of_int nvgLINETO, v1, v2, of_int nvgBEZIERTO, v3, v4, v5, v6, v7, v8,
       of_int nvgBEZIERTO, v9, v10, v11, v12, v13, v14])) =
    Some [nvgMOVETO, nvgLINETO, nvgBEZIERTO, nvgBEZIERTO]"
  by (simp add: ctxAt_fields appendCommand_def getState_def resultCommands_def
        opcodes_distinct)

lemma Arc_two_divisions_opcodes:
  assumes "arcClampAngles a0 a1 CounterClockwise = da" and "arcDivs da = 2"
    and "sin (da / 4) \<noteq> 0"
  shows "map_option commandOpcodes (resultCommands
           (Arc (ctxAt px py) cx cy r a0 a1 CounterClockwise)) =
         Some [nvgMOVETO, nvgLINETO, nvgBEZIERTO, nvgBEZIERTO]"
proof -
  let ?kappa = "- absF (4 / 3 * (1 - cos (da / 4)) / sin (da / 4))"
  have c: "length (commands (ctxAt px py)) > 0" by (simp add: ctxAt_fields)
  have eq: "Arc (ctxAt px py) cx cy r a0 a1 CounterClockwise =
      appendCommand (ctxAt px py) (arcLoop cx cy r a0 da ?kappa nvgLINETO 2 0 (0, 0, 0, 0) [])"
    unfolding Arc_def assms(1) assms(2) Let_def sinCosF_def
    using assms(3) c by simp
  from arcLoop_two_divisions [of cx cy r a0 da ?kappa nvgLINETO]
  obtain v1 v2 v3 v4 v5 v6 v7 v8 v9 v10 v11 v12 v13 v14 where
    l: "arcLoop cx cy r a0 da ?kappa nvgLINETO 2 0 (0, 0, 0, 0) [] =
       [of_int nvgLINETO, v1, v2, of_int nvgBEZIERTO, v3, v4, v5, v6, v7, v8,
        of_int nvgBEZIERTO, v9, v10, v11, v12, v13, v14]" by blast
  show ?thesis unfolding eq l by (rule appendCommand_line_two_beziers_opcodes)
qed

lemma LineTo_opcodes:
  "map_option commandOpcodes (resultCommands (LineTo (ctxAt px py) qx qy)) =
   Some [nvgMOVETO, nvgLINETO]"
  by (simp add: LineTo_def ctxAt_fields appendCommand_def getState_def resultCommands_def
        opcodes_distinct Let_def)

text \<open>
  The three points of that call are collinear within the distance tolerance 0.01: the
  corner (0,0) is about 0.004 from the line through the other two. None of the four
  tests holds, since the corner is at distance 1 from the segment between the other two
  points, and the tangent distance is 1000, so the call records a LineTo to the start of
  the arc and two BezierTo: it is not the call \<^verbatim>\<open>LineTo(0, 0)\<close>.
\<close>

theorem ArcTo_nearly_collinear_counterexample:
  "collinearWithin 2 0 0 0 (999999 / 1000001) (2000 / 1000001) (distTol (ctxAt 2 0)) \<and>
   commands (ctxAt 2 0) \<noteq> [] \<and>
   arcToTangentDistance euclid (ctxAt 2 0) 0 0 (999999 / 1000001) (2000 / 1000001) 1 =
     Finite 1000 \<and>
   map_option commandOpcodes (resultCommands
       (ArcTo euclid (ctxAt 2 0) 0 0 (999999 / 1000001) (2000 / 1000001) 1)) =
     Some [nvgMOVETO, nvgLINETO, nvgBEZIERTO, nvgBEZIERTO] \<and>
   ArcTo euclid (ctxAt 2 0) 0 0 (999999 / 1000001) (2000 / 1000001) 1 \<noteq>
     LineTo (ctxAt 2 0) 0 0"
proof -
  have col: "collinearWithin 2 0 0 0 (999999 / 1000001) (2000 / 1000001) (distTol (ctxAt 2 0))"
    by (simp add: collinearWithin_def ctxAt_fields Let_def)
  have ne: "commands (ctxAt 2 0) \<noteq> []" by (simp add: ctxAt_fields)
  note th = hairpin_theta
  have ops: "map_option commandOpcodes (resultCommands
       (ArcTo euclid (ctxAt 2 0) 0 0 (999999 / 1000001) (2000 / 1000001) 1)) =
     Some [nvgMOVETO, nvgLINETO, nvgBEZIERTO, nvgBEZIERTO]"
    unfolding hairpin_unfold hairpin_angles
    by (rule Arc_two_divisions_opcodes [OF ccw_sweep [OF th] ccw_divs [OF th] ccw_sin [OF th]])
  have diff: "ArcTo euclid (ctxAt 2 0) 0 0 (999999 / 1000001) (2000 / 1000001) 1 \<noteq>
     LineTo (ctxAt 2 0) 0 0"
  proof
    assume "ArcTo euclid (ctxAt 2 0) 0 0 (999999 / 1000001) (2000 / 1000001) 1 =
      LineTo (ctxAt 2 0) 0 0"
    with ops have "map_option commandOpcodes (resultCommands (LineTo (ctxAt 2 0) 0 0)) =
      Some [nvgMOVETO, nvgLINETO, nvgBEZIERTO, nvgBEZIERTO]" by simp
    then show False by (simp add: LineTo_opcodes)
  qed
  from col ne hairpin_distance ops diff show ?thesis by simp
qed

section \<open>Properties of flattening\<close>

lemma flattenPath_guards:
  assumes "flattenPath g distTol' c j = Inr c'"
  shows "0 \<le> first (paths c ! j)" and "first (paths c ! j) \<le> int (length (points c))"
    and "1 \<le> count (paths c ! j)"
    and "count (paths c ! j) \<le> int (length (points c)) - first (paths c ! j)"
proof -
  let ?path = "paths c ! j"
  have g1: "\<not> (first ?path < 0 \<or> first ?path > int (length (points c)))"
    using assms by (simp add: flattenPath_def Let_def split: if_splits)
  have g2: "\<not> (count ?path - 1 < 0 \<or>
      count ?path - 1 \<ge> int (length (points c) - nat (first ?path)))"
  proof
    assume "count ?path - 1 < 0 \<or>
      count ?path - 1 \<ge> int (length (points c) - nat (first ?path))"
    with g1 have "flattenPath g distTol' c j = Inl Panic"
      by (simp only: flattenPath_def Let_def if_False if_True)
    with assms show False by simp
  qed
  from g1 show "0 \<le> first ?path" "first ?path \<le> int (length (points c))" by auto
  from g2 show "1 \<le> count ?path" by auto
  from g1 g2 show "count ?path \<le> int (length (points c)) - first ?path" by linarith
qed

lemma dropClosingPoint_cases:
  "(fst (dropClosingPoint g tol arena base path) = path \<and>
    snd (dropClosingPoint g tol arena base path) = base + nat (count path - 1)) \<or>
   (count path > 2 \<and>
    fst (dropClosingPoint g tol arena base path) = path\<lparr>count := count path - 1, closed := True\<rparr> \<and>
    snd (dropClosingPoint g tol arena base path) = base + nat (count path - 1 - 1))"
  by (simp add: dropClosingPoint_def Let_def)

lemma dropClosingPoint_count_ge:
  "1 \<le> count path \<Longrightarrow> 1 \<le> count (fst (dropClosingPoint g tol arena base path))"
  using dropClosingPoint_cases [of g tol arena base path] by auto

lemma pathsLoop_counts:
  "pathsLoop g tol c j = Inr c' \<Longrightarrow>
   (\<forall>i < j. i < length (paths c) \<longrightarrow> 1 \<le> count (paths c ! i)) \<Longrightarrow>
   length (paths c') = length (paths c) \<and> (\<forall>i < length (paths c'). 1 \<le> count (paths c' ! i))"
proof (induction g tol c j rule: pathsLoop.induct)
  case (1 g tol c j)
  show ?case
  proof (cases "j < length (paths c)")
    case False
    with "1.prems" show ?thesis by (simp add: pathsLoop.simps [of g tol c j])
  next
    case True
    with "1.prems"(1) obtain c1 where step: "flattenPath g tol c j = Inr c1"
      and rest: "pathsLoop g tol c1 (j + 1) = Inr c'"
      by (simp add: pathsLoop.simps [of g tol c j] split: sum.splits)
    from flattenPath_Inr [OF step] obtain arena2 bnds where
      c1: "c1 = c\<lparr>points := arena2,
            paths := (paths c)[j := fst (dropClosingPoint g tol (points c)
               (nat (first (paths c ! j))) (paths c ! j))],
            bounds := bnds\<rparr>" by blast
    have cj: "1 \<le> count (paths c1 ! j)"
      using True flattenPath_guards(3) [OF step] by (simp add: c1 dropClosingPoint_count_ge)
    have inv: "\<forall>i < j + 1. i < length (paths c1) \<longrightarrow> 1 \<le> count (paths c1 ! i)"
    proof (intro allI impI)
      fix i assume "i < j + 1" "i < length (paths c1)"
      show "1 \<le> count (paths c1 ! i)"
      proof (cases "i = j")
        case True then show ?thesis using cj by simp
      next
        case False
        with \<open>i < j + 1\<close> have "i < j" by simp
        moreover from \<open>i < length (paths c1)\<close> have "i < length (paths c)" by (simp add: c1)
        ultimately have "1 \<le> count (paths c ! i)" using "1.prems"(2) by blast
        with False show ?thesis by (simp add: c1)
      qed
    qed
    from "1.IH" [OF True step rest inv] show ?thesis by (simp add: c1)
  qed
qed

text \<open>Flattening the segment from (0, 0) to (1, 0).\<close>

lemma ctxLine_calls: "bind (MoveTo ctxI 0 0) (\<lambda>c. LineTo c 1 0) = Inr ctxLine"
  by (simp add: MoveTo_def LineTo_def appendCommand_def getState_def ctxI_def ctx0_def
      ctxLine_def opcodes_distinct TransformPoint_def IdentityMatrix_def Let_def)

lemma line_commands:
  "flattenCommands euclid refTess (1 / 4) (1 / 100)
     [of_int nvgMOVETO, 0, 0, of_int nvgLINETO, 1, 0] emptyCache =
   Inr (emptyCache\<lparr>points := [pt 0 0 0 0 0 nvgPtCORNER, pt 1 0 0 0 0 nvgPtCORNER],
          paths := [pathOf 0 2 False Solid]\<rparr>)"
  by (simp add: opcodes_distinct addPath_def addPoint_def lastPath_def setLastPath_def
      emptyCache_def euclid_fields euclidPtEquals_def pt_def pathOf_def)

lemma line_path:
  "flattenPath euclid (1 / 100)
     (emptyCache\<lparr>points := [pt 0 0 0 0 0 fl, pt 1 0 0 0 0 fl],
          paths := [pathOf 0 2 False Solid],
          bounds := (1000000, 1000000, - 1000000, - 1000000)\<rparr>) 0 =
   Inr (emptyCache\<lparr>points := [pt 0 0 1 0 1 fl, pt 1 0 (- 1) 0 1 fl],
          paths := [pathOf 0 2 False Solid], bounds := (0, 0, 1, 0)\<rparr>)"
  by (simp add: flattenPath_def Let_def emptyCache_def dropClosingPoint_def enforceWinding_def
      segLoop.simps euclid_fields euclidNormalize_def euclidPtEquals_def pt_def pathOf_def
      minF_def maxF_def)

lemma line_flatten:
  "flattenPaths euclid refTess ctxLine =
   Inr (ctxLine\<lparr>cache := emptyCache\<lparr>points := [pt 0 0 1 0 1 nvgPtCORNER, pt 1 0 (- 1) 0 1 nvgPtCORNER],
          paths := [pathOf 0 2 False Solid], bounds := (0, 0, 1, 0)\<rparr>\<rparr>)"
proof -
  have c: "cache ctxLine = emptyCache" "commands ctxLine = [of_int nvgMOVETO, 0, 0, of_int nvgLINETO, 1, 0]"
    "tessTol ctxLine = 1 / 4" "distTol ctxLine = 1 / 100"
    by (simp_all add: ctxLine_def ctxI_def ctx0_def)
  have p: "paths emptyCache = []" by (simp add: emptyCache_def)
  have loop: "pathsLoop euclid (1 / 100)
     (emptyCache\<lparr>points := [pt 0 0 0 0 0 nvgPtCORNER, pt 1 0 0 0 0 nvgPtCORNER],
          paths := [pathOf 0 2 False Solid],
          bounds := (1000000, 1000000, - 1000000, - 1000000)\<rparr>) 0 =
     Inr (emptyCache\<lparr>points := [pt 0 0 1 0 1 nvgPtCORNER, pt 1 0 (- 1) 0 1 nvgPtCORNER],
          paths := [pathOf 0 2 False Solid], bounds := (0, 0, 1, 0)\<rparr>)"
    by (simp add: pathsLoop.simps line_path)
  show ?thesis
    unfolding flattenPaths_def c line_commands by (simp add: p loop)
qed

section \<open>Properties of Stroke\<close>

lemma clampF_range: "lo \<le> hi \<Longrightarrow> lo \<le> clampF a lo hi \<and> clampF a lo hi \<le> hi"
  by (simp add: clampF_def)

lemma clampF_id: "lo \<le> a \<Longrightarrow> a \<le> hi \<Longrightarrow> clampF a lo hi = a"
  by (simp add: clampF_def)

lemma effectiveStrokeWidth_range:
  "0 \<le> effectiveStrokeWidth state \<and> effectiveStrokeWidth state \<le> 200"
  unfolding effectiveStrokeWidth_def by (rule clampF_range) simp

lemma strokeWidthAndPaint_thin:
  assumes "effectiveStrokeWidth state < fringe"
  shows "strokeWidthAndPaint state fringe =
     Inr (fringe,
          scaleAlpha (scaleAlpha (stroke state)
            (effectiveStrokeWidth state / fringe * (effectiveStrokeWidth state / fringe)))
            (alpha state))"
proof -
  let ?w = "effectiveStrokeWidth state"
  have w0: "0 \<le> ?w" using effectiveStrokeWidth_range by blast
  with assms have f: "0 < fringe" by linarith
  have q: "0 \<le> ?w / fringe" "?w / fringe \<le> 1" using w0 f assms by simp_all
  have c: "clampF (?w / fringe) 0 1 = ?w / fringe" using q by (rule clampF_id)
  have w: "clampF (strokeWidth state * getAverageScale (xform state)) 0 200 = ?w"
    by (simp add: effectiveStrokeWidth_def)
  show ?thesis
    unfolding strokeWidthAndPaint_def Let_def w using assms f by (simp add: c)
qed

lemma strokeWidthAndPaint_wide:
  assumes "\<not> effectiveStrokeWidth state < fringe"
  shows "strokeWidthAndPaint state fringe =
     Inr (effectiveStrokeWidth state, scaleAlpha (stroke state) (alpha state))"
proof -
  have w: "clampF (strokeWidth state * getAverageScale (xform state)) 0 200 =
      effectiveStrokeWidth state"
    by (simp add: effectiveStrokeWidth_def)
  show ?thesis
    unfolding strokeWidthAndPaint_def Let_def w using assms by simp
qed

lemma flattenPaths_frame:
  assumes "flattenPaths g ts ctx = Inr ctx1"
  shows "ctx1 = ctx\<lparr>cache := cache ctx1\<rparr>"
proof (cases "length (paths (cache ctx)) > 0")
  case True
  with assms show ?thesis by (simp add: flattenPaths_def)
next
  case False
  with assms show ?thesis
    by (auto simp: flattenPaths_def bind_def split: sum.splits)
qed

lemma flattenPaths_cached:
  "paths (cache ctx) \<noteq> [] \<Longrightarrow> flattenPaths g ts ctx = Inr ctx"
  by (simp add: flattenPaths_def)

lemma flattenPaths_fresh_counts:
  assumes "paths (cache ctx) = []" and "flattenPaths g ts ctx = Inr ctx1"
  shows "\<forall>p \<in> set (paths (cache ctx1)). 1 \<le> count p"
proof -
  from assms obtain c1 c2 where
    loop: "pathsLoop g (distTol ctx)
        (c1\<lparr>bounds := (1000000, 1000000, - 1000000, - 1000000)\<rparr>) 0 = Inr c2"
    and c2: "ctx1 = ctx\<lparr>cache := c2\<rparr>"
    by (auto simp: flattenPaths_def bind_def split: sum.splits)
  from pathsLoop_counts [OF loop] have "\<forall>i < length (paths c2). 1 \<le> count (paths c2 ! i)"
    by simp
  then show ?thesis by (auto simp: c2 in_set_conv_nth)
qed


lemma Stroke_unfold:
  assumes st: "states ctx \<noteq> []"
    and wp: "strokeWidthAndPaint (last (states ctx)) (fringeWidth ctx) = Inr (sw, paint)"
    and fl: "flattenPaths g ts ctx = Inr ctx1"
  shows "Stroke g ts ctx =
    (if list_ex (\<lambda>path. count path = 1) (paths (cache ctx1)) then Inl Panic
     else
       (let w = (if edgeAntiAlias ctx then sw * 0.5 + fringeWidth ctx * 0.5 else sw * 0.5);
            state = last (states ctx);
            ctx2 = ctx1\<lparr>cache := expandStroke ts w (lineCap state) (lineJoin state)
                          (miterLimit state) (fringeWidth ctx) (tessTol ctx) (cache ctx1)\<rparr>
        in Inr (countStrokeTriangles ctx2 (paths (cache ctx2)),
                [ExpandStroke w (lineCap state) (lineJoin state) (miterLimit state)
                   (fringeWidth ctx) (tessTol ctx),
                 RenderStroke paint (scissor state) (fringeWidth ctx) sw
                   (paths (cache ctx2))])))"
proof -
  have fr: "fringeWidth ctx1 = fringeWidth ctx" "tessTol ctx1 = tessTol ctx"
    "edgeAntiAlias ctx1 = edgeAntiAlias ctx"
    by (subst flattenPaths_frame [OF fl], simp)+
  show ?thesis
    using st by (simp add: Stroke_def getState_def wp fl fr Let_def)
qed

lemma Stroke_panics:
  assumes "states ctx \<noteq> []" and "flattenPaths g ts ctx = Inr ctx1"
    and "\<exists>p \<in> set (paths (cache ctx1)). count p = 1"
  shows "Stroke g ts ctx = Inl Panic"
proof (cases "strokeWidthAndPaint (last (states ctx)) (fringeWidth ctx)")
  case (Inl e)
  have "\<exists>r. strokeWidthAndPaint (last (states ctx)) (fringeWidth ctx) = Inr r"
    using strokeWidthAndPaint_thin strokeWidthAndPaint_wide by metis
  with Inl show ?thesis by simp
next
  case (Inr r)
  obtain sw paint where r: "r = (sw, paint)" by (cases r) auto
  from assms(3) have "list_ex (\<lambda>path. count path = 1) (paths (cache ctx1))"
    by (simp add: list_ex_iff)
  then show ?thesis
    using Stroke_unfold [OF assms(1) Inr [unfolded r] assms(2)] by simp
qed

lemma Stroke_returns:
  assumes "states ctx \<noteq> []" and "flattenPaths g ts ctx = Inr ctx1"
    and "\<not> (\<exists>p \<in> set (paths (cache ctx1)). count p = 1)"
  shows "returns (Stroke g ts ctx)"
proof -
  obtain sw paint where wp: "strokeWidthAndPaint (last (states ctx)) (fringeWidth ctx) = Inr (sw, paint)"
    using strokeWidthAndPaint_thin strokeWidthAndPaint_wide by metis
  from assms(3) have "\<not> list_ex (\<lambda>path. count path = 1) (paths (cache ctx1))"
    by (simp add: list_ex_iff)
  then show ?thesis
    using Stroke_unfold [OF assms(1) wp assms(2)] by (simp add: returns_def Let_def)
qed

lemma Stroke_Inr_flatten:
  assumes "Stroke g ts ctx = Inr r"
  shows "states ctx \<noteq> [] \<and> (\<exists>ctx1. flattenPaths g ts ctx = Inr ctx1 \<and>
     \<not> list_ex (\<lambda>path. count path = 1) (paths (cache ctx1)))"
proof -
  from assms have st: "states ctx \<noteq> []"
    by (auto simp: Stroke_def getState_def split: if_splits)
  obtain sw paint where wp: "strokeWidthAndPaint (last (states ctx)) (fringeWidth ctx) = Inr (sw, paint)"
    using strokeWidthAndPaint_thin strokeWidthAndPaint_wide by metis
  show ?thesis
  proof (cases "flattenPaths g ts ctx")
    case (Inl e)
    with assms st wp show ?thesis by (simp add: Stroke_def getState_def)
  next
    case (Inr ctx1)
    with assms Stroke_unfold [OF st wp Inr] st show ?thesis by (auto split: if_splits)
  qed
qed

lemma Stroke_observed:
  assumes "Stroke g ts ctx = Inr r"
    and wp: "strokeWidthAndPaint (last (states ctx)) (fringeWidth ctx) = Inr (sw, paint)"
  shows "strokeAlphas (Stroke g ts ctx) = Some (A (innerColor paint), A (outerColor paint))"
    and "strokeWidths (Stroke g ts ctx) =
      Some (if edgeAntiAlias ctx then sw * 0.5 + fringeWidth ctx * 0.5 else sw * 0.5, sw)"
proof -
  from Stroke_Inr_flatten [OF assms(1)] obtain ctx1 where st: "states ctx \<noteq> []"
    and fl: "flattenPaths g ts ctx = Inr ctx1"
    and ok: "\<not> list_ex (\<lambda>path. count path = 1) (paths (cache ctx1))" by blast
  note u = Stroke_unfold [OF st wp fl]
  show "strokeAlphas (Stroke g ts ctx) = Some (A (innerColor paint), A (outerColor paint))"
    unfolding u using ok by (simp add: strokeAlphas_def Let_def)
  show "strokeWidths (Stroke g ts ctx) =
      Some (if edgeAntiAlias ctx then sw * 0.5 + fringeWidth ctx * 0.5 else sw * 0.5, sw)"
    unfolding u using ok by (simp add: strokeWidths_def Let_def)
qed

text \<open>Flattening the closed path that degenerates to the point (0, 0).\<close>

lemma ctxDot_calls:
  "bind (MoveTo ctxI 0 0) (\<lambda>c. bind (LineTo c 0 0) (\<lambda>c. ClosePath c)) = Inr ctxDot"
  by (simp add: MoveTo_def LineTo_def ClosePath_def appendCommand_def getState_def ctxI_def
      ctx0_def ctxDot_def opcodes_distinct TransformPoint_def IdentityMatrix_def Let_def)

lemma dot_commands:
  "flattenCommands euclid refTess (1 / 4) (1 / 100)
     [of_int nvgMOVETO, 0, 0, of_int nvgLINETO, 0, 0, of_int nvgCLOSE] emptyCache =
   Inr (emptyCache\<lparr>points := [pt 0 0 0 0 0 nvgPtCORNER],
          paths := [pathOf 0 1 True Solid]\<rparr>)"
  by (simp add: opcodes_distinct addPath_def addPoint_def lastPath_def setLastPath_def
      closePath_def emptyCache_def euclid_fields euclidPtEquals_def pt_def pathOf_def)

lemma dot_path:
  "flattenPath euclid (1 / 100)
     (emptyCache\<lparr>points := [pt 0 0 0 0 0 fl],
          paths := [pathOf 0 1 True Solid],
          bounds := (1000000, 1000000, - 1000000, - 1000000)\<rparr>) 0 =
   Inr (emptyCache\<lparr>points := [pt 0 0 0 0 0 fl],
          paths := [pathOf 0 1 True Solid], bounds := (0, 0, 0, 0)\<rparr>)"
  by (simp add: flattenPath_def Let_def emptyCache_def dropClosingPoint_def enforceWinding_def
      segLoop.simps euclid_fields euclidNormalize_def euclidPtEquals_def pt_def pathOf_def
      minF_def maxF_def)

lemma dot_flatten:
  "flattenPaths euclid refTess ctxDot =
   Inr (ctxDot\<lparr>cache := emptyCache\<lparr>points := [pt 0 0 0 0 0 nvgPtCORNER],
          paths := [pathOf 0 1 True Solid], bounds := (0, 0, 0, 0)\<rparr>\<rparr>)"
proof -
  have c: "cache ctxDot = emptyCache"
    "commands ctxDot = [of_int nvgMOVETO, 0, 0, of_int nvgLINETO, 0, 0, of_int nvgCLOSE]"
    "tessTol ctxDot = 1 / 4" "distTol ctxDot = 1 / 100"
    by (simp_all add: ctxDot_def ctxI_def ctx0_def)
  have p: "paths emptyCache = []" by (simp add: emptyCache_def)
  have loop: "pathsLoop euclid (1 / 100)
     (emptyCache\<lparr>points := [pt 0 0 0 0 0 nvgPtCORNER],
          paths := [pathOf 0 1 True Solid],
          bounds := (1000000, 1000000, - 1000000, - 1000000)\<rparr>) 0 =
     Inr (emptyCache\<lparr>points := [pt 0 0 0 0 0 nvgPtCORNER],
          paths := [pathOf 0 1 True Solid], bounds := (0, 0, 0, 0)\<rparr>)"
    by (simp add: pathsLoop.simps dot_path)
  show ?thesis
    unfolding flattenPaths_def c dot_commands by (simp add: p loop)
qed

text \<open>
  C7. When \<^verbatim>\<open>flattenPaths\<close> has returned and some path of the cache has exactly one
  point, \<^verbatim>\<open>Stroke\<close> panics. After a flattening that started from a cache without paths
  every path has at least one point, so there a path with fewer than two points makes
  \<^verbatim>\<open>Stroke\<close> panic, and without such a path \<^verbatim>\<open>Stroke\<close> returns.
\<close>

theorem Stroke_rejects_single_point:
  "states ctx \<noteq> [] \<and> flattenPaths g ts ctx = Inr ctx1 \<longrightarrow>
     ((\<exists>p \<in> set (paths (cache ctx1)). count p = 1) \<longrightarrow> Stroke g ts ctx = Inl Panic) \<and>
     (paths (cache ctx) = [] \<longrightarrow>
        (\<forall>p \<in> set (paths (cache ctx1)). 1 \<le> count p) \<and>
        ((\<exists>p \<in> set (paths (cache ctx1)). count p < 2) \<longrightarrow> Stroke g ts ctx = Inl Panic) \<and>
        (\<not> (\<exists>p \<in> set (paths (cache ctx1)). count p < 2) \<longrightarrow> returns (Stroke g ts ctx)))"
proof (intro impI, elim conjE)
  assume st: "states ctx \<noteq> []" and fl: "flattenPaths g ts ctx = Inr ctx1"
  have a: "(\<exists>p \<in> set (paths (cache ctx1)). count p = 1) \<longrightarrow> Stroke g ts ctx = Inl Panic"
    using Stroke_panics [OF st fl] by blast
  have b: "paths (cache ctx) = [] \<longrightarrow>
        (\<forall>p \<in> set (paths (cache ctx1)). 1 \<le> count p) \<and>
        ((\<exists>p \<in> set (paths (cache ctx1)). count p < 2) \<longrightarrow> Stroke g ts ctx = Inl Panic) \<and>
        (\<not> (\<exists>p \<in> set (paths (cache ctx1)). count p < 2) \<longrightarrow> returns (Stroke g ts ctx))"
  proof
    assume fresh: "paths (cache ctx) = []"
    note ge = flattenPaths_fresh_counts [OF fresh fl]
    have one: "(\<exists>p \<in> set (paths (cache ctx1)). count p < 2) =
               (\<exists>p \<in> set (paths (cache ctx1)). count p = 1)"
      using ge by force
    show "(\<forall>p \<in> set (paths (cache ctx1)). 1 \<le> count p) \<and>
        ((\<exists>p \<in> set (paths (cache ctx1)). count p < 2) \<longrightarrow> Stroke g ts ctx = Inl Panic) \<and>
        (\<not> (\<exists>p \<in> set (paths (cache ctx1)). count p < 2) \<longrightarrow> returns (Stroke g ts ctx))"
      unfolding one using ge a Stroke_returns [OF st fl] by blast
  qed
  from a b show "((\<exists>p \<in> set (paths (cache ctx1)). count p = 1) \<longrightarrow> Stroke g ts ctx = Inl Panic) \<and>
     (paths (cache ctx) = [] \<longrightarrow>
        (\<forall>p \<in> set (paths (cache ctx1)). 1 \<le> count p) \<and>
        ((\<exists>p \<in> set (paths (cache ctx1)). count p < 2) \<longrightarrow> Stroke g ts ctx = Inl Panic) \<and>
        (\<not> (\<exists>p \<in> set (paths (cache ctx1)). count p < 2) \<longrightarrow> returns (Stroke g ts ctx)))"
    by (rule conjI)
qed

theorem Stroke_rejects_single_point_witness:
  "Stroke euclid refTess ctxDot = Inl Panic \<and> returns (Stroke euclid refTess ctxLine)"
proof -
  have d: "states ctxDot \<noteq> [] \<and> flattenPaths euclid refTess ctxDot =
     Inr (ctxDot\<lparr>cache := emptyCache\<lparr>points := [pt 0 0 0 0 0 nvgPtCORNER],
          paths := [pathOf 0 1 True Solid], bounds := (0, 0, 0, 0)\<rparr>\<rparr>)"
    by (simp add: dot_flatten) (simp add: ctxDot_def ctxI_def ctx0_def)
  have l: "states ctxLine \<noteq> [] \<and> flattenPaths euclid refTess ctxLine =
     Inr (ctxLine\<lparr>cache := emptyCache\<lparr>points := [pt 0 0 1 0 1 nvgPtCORNER, pt 1 0 (- 1) 0 1 nvgPtCORNER],
          paths := [pathOf 0 2 False Solid], bounds := (0, 0, 1, 0)\<rparr>\<rparr>)"
    by (simp add: line_flatten) (simp add: ctxLine_def ctxI_def ctx0_def)
  have fresh: "paths (cache ctxLine) = []" by (simp add: ctxLine_def ctxI_def ctx0_def emptyCache_def)
  from Stroke_rejects_single_point [THEN mp, OF d]
  have "Stroke euclid refTess ctxDot = Inl Panic" by (simp add: pathOf_def)
  moreover from Stroke_rejects_single_point [THEN mp, OF l] fresh
  have "returns (Stroke euclid refTess ctxLine)" by (simp add: pathOf_def)
  ultimately show ?thesis by (rule conjI)
qed

lemma strokeWidthAndPaint_total:
  "\<exists>sw paint. strokeWidthAndPaint state fringe = Inr (sw, paint)"
  using strokeWidthAndPaint_thin strokeWidthAndPaint_wide by metis

lemma scaleAlpha_alphas:
  "A (innerColor (scaleAlpha paint f)) = A (innerColor paint) * f"
  "A (outerColor (scaleAlpha paint f)) = A (outerColor paint) * f"
  by (simp_all add: scaleAlpha_def)

text \<open>
  C5, as the code has it. The width compared with the fringe width is the effective stroke
  width: the stroke width of the state times the average scale of its transform, clamped
  to [0, 200]. For every \<^verbatim>\<open>Stroke\<close> that returns: when the effective width is below the
  fringe width, the alpha channels of the inner and the outer colour handed to the backend
  are those of the stroke paint times (effective width / fringe width) squared (times the
  global alpha), the backend receives the fringe width as stroke width, and the expansion
  pass receives half of it (plus half a fringe width with antialiasing); otherwise the
  alpha channels are scaled by the global alpha only and the widths derive from the
  effective width.
\<close>

theorem Stroke_thin_coverage:
  "returns (Stroke g ts ctx) \<longrightarrow>
   (effectiveStrokeWidth (last (states ctx)) < fringeWidth ctx \<longrightarrow>
      strokeAlphas (Stroke g ts ctx) =
        Some (A (innerColor (stroke (last (states ctx)))) *
                (effectiveStrokeWidth (last (states ctx)) / fringeWidth ctx)\<^sup>2 *
                alpha (last (states ctx)),
              A (outerColor (stroke (last (states ctx)))) *
                (effectiveStrokeWidth (last (states ctx)) / fringeWidth ctx)\<^sup>2 *
                alpha (last (states ctx))) \<and>
      strokeWidths (Stroke g ts ctx) =
        Some (if edgeAntiAlias ctx then fringeWidth ctx * 0.5 + fringeWidth ctx * 0.5
              else fringeWidth ctx * 0.5,
              fringeWidth ctx)) \<and>
   (\<not> effectiveStrokeWidth (last (states ctx)) < fringeWidth ctx \<longrightarrow>
      strokeAlphas (Stroke g ts ctx) =
        Some (A (innerColor (stroke (last (states ctx)))) * alpha (last (states ctx)),
              A (outerColor (stroke (last (states ctx)))) * alpha (last (states ctx))) \<and>
      strokeWidths (Stroke g ts ctx) =
        Some (if edgeAntiAlias ctx
              then effectiveStrokeWidth (last (states ctx)) * 0.5 + fringeWidth ctx * 0.5
              else effectiveStrokeWidth (last (states ctx)) * 0.5,
              effectiveStrokeWidth (last (states ctx))))"
proof (intro impI conjI)
  assume "returns (Stroke g ts ctx)"
  then obtain r where r: "Stroke g ts ctx = Inr r"
    by (cases "Stroke g ts ctx") (simp_all add: returns_def)
  {
    assume thin: "effectiveStrokeWidth (last (states ctx)) < fringeWidth ctx"
    note o = Stroke_observed [OF r strokeWidthAndPaint_thin [OF thin]]
    show "strokeAlphas (Stroke g ts ctx) =
        Some (A (innerColor (stroke (last (states ctx)))) *
                (effectiveStrokeWidth (last (states ctx)) / fringeWidth ctx)\<^sup>2 *
                alpha (last (states ctx)),
              A (outerColor (stroke (last (states ctx)))) *
                (effectiveStrokeWidth (last (states ctx)) / fringeWidth ctx)\<^sup>2 *
                alpha (last (states ctx)))"
      unfolding o(1) by (simp add: scaleAlpha_alphas power2_eq_square)
    show "strokeWidths (Stroke g ts ctx) =
        Some (if edgeAntiAlias ctx then fringeWidth ctx * 0.5 + fringeWidth ctx * 0.5
              else fringeWidth ctx * 0.5,
              fringeWidth ctx)"
      unfolding o(2) by simp
  }
  {
    assume wide: "\<not> effectiveStrokeWidth (last (states ctx)) < fringeWidth ctx"
    note o = Stroke_observed [OF r strokeWidthAndPaint_wide [OF wide]]
    show "strokeAlphas (Stroke g ts ctx) =
        Some (A (innerColor (stroke (last (states ctx)))) * alpha (last (states ctx)),
              A (outerColor (stroke (last (states ctx)))) * alpha (last (states ctx)))"
      unfolding o(1) by (simp add: scaleAlpha_alphas)
    show "strokeWidths (Stroke g ts ctx) =
        Some (if edgeAntiAlias ctx
              then effectiveStrokeWidth (last (states ctx)) * 0.5 + fringeWidth ctx * 0.5
              else effectiveStrokeWidth (last (states ctx)) * 0.5,
              effectiveStrokeWidth (last (states ctx)))"
      unfolding o(2) by simp
  }
qed

text \<open>
  C10, as the code has it. The effective stroke width lies in [0, 200]. The width handed
  to the backend is the effective width, raised to the fringe width when it is smaller;
  it never exceeds the larger of 200 and the fringe width, hence 200 when the fringe width
  is at most 200. The expansion pass receives half of it, plus half a fringe width with
  antialiasing.
\<close>

theorem Stroke_width_bound:
  "returns (Stroke g ts ctx) \<longrightarrow>
     0 \<le> effectiveStrokeWidth (last (states ctx)) \<and>
     effectiveStrokeWidth (last (states ctx)) \<le> 200 \<and>
     strokeWidths (Stroke g ts ctx) =
       Some (if edgeAntiAlias ctx
             then backendStrokeWidth ctx * 0.5 + fringeWidth ctx * 0.5
             else backendStrokeWidth ctx * 0.5,
             backendStrokeWidth ctx) \<and>
     backendStrokeWidth ctx \<le> max 200 (fringeWidth ctx) \<and>
     (fringeWidth ctx \<le> 200 \<longrightarrow> backendStrokeWidth ctx \<le> 200)"
proof (intro impI conjI)
  show "0 \<le> effectiveStrokeWidth (last (states ctx))"
    and le: "effectiveStrokeWidth (last (states ctx)) \<le> 200"
    using effectiveStrokeWidth_range by blast+
  show "backendStrokeWidth ctx \<le> max 200 (fringeWidth ctx)"
    using le by (simp add: backendStrokeWidth_def)
  {
    assume "fringeWidth ctx \<le> 200"
    then show "backendStrokeWidth ctx \<le> 200" using le by (simp add: backendStrokeWidth_def)
  }
  assume "returns (Stroke g ts ctx)"
  then obtain r where r: "Stroke g ts ctx = Inr r"
    by (cases "Stroke g ts ctx") (simp_all add: returns_def)
  show "strokeWidths (Stroke g ts ctx) =
       Some (if edgeAntiAlias ctx
             then backendStrokeWidth ctx * 0.5 + fringeWidth ctx * 0.5
             else backendStrokeWidth ctx * 0.5,
             backendStrokeWidth ctx)"
  proof (cases "effectiveStrokeWidth (last (states ctx)) < fringeWidth ctx")
    case True
    from Stroke_observed(2) [OF r strokeWidthAndPaint_thin [OF True]] True
    show ?thesis by (simp add: backendStrokeWidth_def)
  next
    case False
    from Stroke_observed(2) [OF r strokeWidthAndPaint_wide [OF False]] False
    show ?thesis by (simp add: backendStrokeWidth_def)
  qed
qed

lemma flattenPaths_states:
  "flattenPaths g ts (ctx\<lparr>states := ss\<rparr>) =
     (case flattenPaths g ts ctx of Inl e \<Rightarrow> Inl e | Inr c \<Rightarrow> Inr (c\<lparr>states := ss\<rparr>))"
  by (simp add: flattenPaths_def bind_def split: sum.splits)

lemma sqrt_16: "sqrt 16 = 4"
  by (rule real_sqrt_unique) simp_all

lemma scale_identity: "getAverageScale IdentityMatrix = 1"
  by (simp add: getAverageScale_def IdentityMatrix_def)

lemma scale_four: "getAverageScale (ScaleMatrix 4 4) = 4"
  by (simp add: getAverageScale_def ScaleMatrix_def sqrt_16)

lemma ctxStroke_fields:
  "states (ctxStroke xf sw) = [strokeState xf sw]" "fringeWidth (ctxStroke xf sw) = 1"
  "edgeAntiAlias (ctxStroke xf sw) = True"
  by (simp_all add: ctxStroke_def ctxLine_def ctxI_def ctx0_def)

lemma strokeState_fields:
  "xform (strokeState xf sw) = xf" "strokeWidth (strokeState xf sw) = sw"
  "alpha (strokeState xf sw) = 1" "A (innerColor (stroke (strokeState xf sw))) = 1"
  "A (outerColor (stroke (strokeState xf sw))) = 1"
  by (simp_all add: strokeState_def zeroState_def opaquePaint_def)

lemma ctxStroke_returns: "returns (Stroke euclid refTess (ctxStroke xf sw))"
proof -
  have fl: "flattenPaths euclid refTess (ctxStroke xf sw) =
     Inr (ctxLine\<lparr>cache := emptyCache\<lparr>points := [pt 0 0 1 0 1 nvgPtCORNER, pt 1 0 (- 1) 0 1 nvgPtCORNER],
          paths := [pathOf 0 2 False Solid], bounds := (0, 0, 1, 0)\<rparr>, states := [strokeState xf sw]\<rparr>)"
    by (simp add: ctxStroke_def flattenPaths_states line_flatten)
  show ?thesis
    by (rule Stroke_returns [OF _ fl]) (simp_all add: ctxStroke_fields pathOf_def)
qed

lemma effective_half: "effectiveStrokeWidth (strokeState IdentityMatrix (1 / 2)) = 1 / 2"
  by (simp add: effectiveStrokeWidth_def strokeState_fields scale_identity clampF_def)

lemma effective_scaled: "effectiveStrokeWidth (strokeState (ScaleMatrix 4 4) (1 / 2)) = 2"
  by (simp add: effectiveStrokeWidth_def strokeState_fields scale_four clampF_def)

theorem Stroke_thin_coverage_witness:
  "strokeAlphas (Stroke euclid refTess (ctxStroke IdentityMatrix (1 / 2))) = Some (1 / 4, 1 / 4) \<and>
   strokeWidths (Stroke euclid refTess (ctxStroke IdentityMatrix (1 / 2))) = Some (1, 1) \<and>
   strokeAlphas (Stroke euclid refTess (ctxStroke (ScaleMatrix 4 4) (1 / 2))) = Some (1, 1) \<and>
   strokeWidths (Stroke euclid refTess (ctxStroke (ScaleMatrix 4 4) (1 / 2))) = Some (3 / 2, 2)"
proof -
  note a = Stroke_thin_coverage [THEN mp, OF ctxStroke_returns [of IdentityMatrix "1 / 2"]]
  note b = Stroke_thin_coverage [THEN mp, OF ctxStroke_returns [of "ScaleMatrix 4 4" "1 / 2"]]
  have a': "strokeAlphas (Stroke euclid refTess (ctxStroke IdentityMatrix (1 / 2))) = Some (1 / 4, 1 / 4) \<and>
   strokeWidths (Stroke euclid refTess (ctxStroke IdentityMatrix (1 / 2))) = Some (1, 1)"
    using a by (simp add: ctxStroke_fields strokeState_fields effective_half power2_eq_square)
  have b': "strokeAlphas (Stroke euclid refTess (ctxStroke (ScaleMatrix 4 4) (1 / 2))) = Some (1, 1) \<and>
   strokeWidths (Stroke euclid refTess (ctxStroke (ScaleMatrix 4 4) (1 / 2))) = Some (3 / 2, 2)"
    using b by (simp add: ctxStroke_fields strokeState_fields effective_scaled)
  from a' b' show ?thesis by fast
qed

text \<open>
  The stroke width 0.5 set on a state whose transform scales by four, with fringe width
  one: the requested width is below the fringe width, yet the alpha channels reach the
  backend unscaled (one, not a quarter) and the stroke width handed on is two, not the
  fringe width.
\<close>

theorem Stroke_requested_width_counterexample:
  "strokeWidth (last (states (ctxStroke (ScaleMatrix 4 4) (1 / 2)))) <
     fringeWidth (ctxStroke (ScaleMatrix 4 4) (1 / 2)) \<and>
   strokeAlphas (Stroke euclid refTess (ctxStroke (ScaleMatrix 4 4) (1 / 2))) = Some (1, 1) \<and>
   A (innerColor (stroke (last (states (ctxStroke (ScaleMatrix 4 4) (1 / 2)))))) *
     (strokeWidth (last (states (ctxStroke (ScaleMatrix 4 4) (1 / 2)))) /
      fringeWidth (ctxStroke (ScaleMatrix 4 4) (1 / 2)))\<^sup>2 = 1 / 4 \<and>
   strokeWidths (Stroke euclid refTess (ctxStroke (ScaleMatrix 4 4) (1 / 2))) = Some (3 / 2, 2) \<and>
   fringeWidth (ctxStroke (ScaleMatrix 4 4) (1 / 2)) = 1"
proof -
  from ctxStroke_returns [of "ScaleMatrix 4 4" "1 / 2"]
  obtain r where r: "Stroke euclid refTess (ctxStroke (ScaleMatrix 4 4) (1 / 2)) = Inr r"
    by (cases "Stroke euclid refTess (ctxStroke (ScaleMatrix 4 4) (1 / 2))")
       (simp_all add: returns_def)
  have wide: "\<not> effectiveStrokeWidth (last (states (ctxStroke (ScaleMatrix 4 4) (1 / 2))))
      < fringeWidth (ctxStroke (ScaleMatrix 4 4) (1 / 2))"
    by (simp add: ctxStroke_fields effective_scaled)
  note o = Stroke_observed [OF r strokeWidthAndPaint_wide [OF wide]]
  show ?thesis
    unfolding o
    by (simp add: ctxStroke_fields strokeState_fields effective_scaled scaleAlpha_alphas
        power2_eq_square)
qed

lemma ctxCoarse_calls:
  "bind (setDevicePixelRatio (ctxI\<lparr>states := [strokeState IdentityMatrix 1]\<rparr>) (1 / 1000))
     (\<lambda>c. bind (MoveTo c 0 0) (\<lambda>c. LineTo c 100 0)) = Inr ctxCoarse"
  by (simp add: setDevicePixelRatio_def MoveTo_def LineTo_def appendCommand_def getState_def
      ctxI_def ctx0_def ctxCoarse_def opcodes_distinct TransformPoint_def IdentityMatrix_def
      strokeState_def Let_def)

lemma sqrt_10000: "sqrt 10000 = 100"
  by (rule real_sqrt_unique) simp_all

lemma coarse_commands:
  "flattenCommands euclid refTess 250 10
     [of_int nvgMOVETO, 0, 0, of_int nvgLINETO, 100, 0] emptyCache =
   Inr (emptyCache\<lparr>points := [pt 0 0 0 0 0 nvgPtCORNER, pt 100 0 0 0 0 nvgPtCORNER],
          paths := [pathOf 0 2 False Solid]\<rparr>)"
  by (simp add: opcodes_distinct addPath_def addPoint_def lastPath_def setLastPath_def
      emptyCache_def euclid_fields euclidPtEquals_def pt_def pathOf_def)

lemma coarse_path:
  "flattenPath euclid 10
     (emptyCache\<lparr>points := [pt 0 0 0 0 0 fl, pt 100 0 0 0 0 fl],
          paths := [pathOf 0 2 False Solid],
          bounds := (1000000, 1000000, - 1000000, - 1000000)\<rparr>) 0 =
   Inr (emptyCache\<lparr>points := [pt 0 0 1 0 100 fl, pt 100 0 (- 1) 0 100 fl],
          paths := [pathOf 0 2 False Solid], bounds := (0, 0, 100, 0)\<rparr>)"
  by (simp add: flattenPath_def Let_def emptyCache_def dropClosingPoint_def enforceWinding_def
      segLoop.simps euclid_fields euclidNormalize_def euclidPtEquals_def pt_def pathOf_def
      minF_def maxF_def sqrt_10000)

lemma coarse_flatten:
  "flattenPaths euclid refTess ctxCoarse =
   Inr (ctxCoarse\<lparr>cache := emptyCache\<lparr>points :=
            [pt 0 0 1 0 100 nvgPtCORNER, pt 100 0 (- 1) 0 100 nvgPtCORNER],
          paths := [pathOf 0 2 False Solid], bounds := (0, 0, 100, 0)\<rparr>\<rparr>)"
proof -
  have c: "cache ctxCoarse = emptyCache"
    "commands ctxCoarse = [of_int nvgMOVETO, 0, 0, of_int nvgLINETO, 100, 0]"
    "tessTol ctxCoarse = 250" "distTol ctxCoarse = 10"
    by (simp_all add: ctxCoarse_def ctxI_def ctx0_def)
  have p: "paths emptyCache = []" by (simp add: emptyCache_def)
  have loop: "pathsLoop euclid 10
     (emptyCache\<lparr>points := [pt 0 0 0 0 0 nvgPtCORNER, pt 100 0 0 0 0 nvgPtCORNER],
          paths := [pathOf 0 2 False Solid],
          bounds := (1000000, 1000000, - 1000000, - 1000000)\<rparr>) 0 =
     Inr (emptyCache\<lparr>points := [pt 0 0 1 0 100 nvgPtCORNER, pt 100 0 (- 1) 0 100 nvgPtCORNER],
          paths := [pathOf 0 2 False Solid], bounds := (0, 0, 100, 0)\<rparr>)"
    by (simp add: pathsLoop.simps coarse_path)
  show ?thesis
    unfolding flattenPaths_def c coarse_commands by (simp add: p loop)
qed

lemma ctxCoarse_fields:
  "states ctxCoarse = [strokeState IdentityMatrix 1]" "fringeWidth ctxCoarse = 1000"
  "edgeAntiAlias ctxCoarse = True"
  by (simp_all add: ctxCoarse_def ctxI_def ctx0_def)

lemma ctxCoarse_returns: "returns (Stroke euclid refTess ctxCoarse)"
  by (rule Stroke_returns [OF _ coarse_flatten]) (simp_all add: ctxCoarse_fields pathOf_def)

lemma effective_one: "effectiveStrokeWidth (strokeState IdentityMatrix 1) = 1"
  by (simp add: effectiveStrokeWidth_def strokeState_fields scale_identity clampF_def)

theorem Stroke_width_bound_witness:
  "strokeWidths (Stroke euclid refTess (ctxStroke (ScaleMatrix 4 4) (1 / 2))) = Some (3 / 2, 2) \<and>
   backendStrokeWidth (ctxStroke (ScaleMatrix 4 4) (1 / 2)) = 2 \<and>
   strokeWidths (Stroke euclid refTess ctxCoarse) = Some (1000, 1000) \<and>
   backendStrokeWidth ctxCoarse \<le> 1000"
proof -
  note a = Stroke_width_bound [THEN mp, OF ctxStroke_returns [of "ScaleMatrix 4 4" "1 / 2"]]
  note b = Stroke_width_bound [THEN mp, OF ctxCoarse_returns]
  have bw: "backendStrokeWidth (ctxStroke (ScaleMatrix 4 4) (1 / 2)) = 2"
    by (simp add: backendStrokeWidth_def ctxStroke_fields effective_scaled)
  have bc: "backendStrokeWidth ctxCoarse = 1000"
    by (simp add: backendStrokeWidth_def ctxCoarse_fields effective_one)
  have a': "strokeWidths (Stroke euclid refTess (ctxStroke (ScaleMatrix 4 4) (1 / 2))) = Some (3 / 2, 2)"
    using a by (simp add: bw ctxStroke_fields)
  have b': "strokeWidths (Stroke euclid refTess ctxCoarse) = Some (1000, 1000) \<and>
     backendStrokeWidth ctxCoarse \<le> 1000"
    using b by (simp add: bc ctxCoarse_fields)
  from a' bw b' show ?thesis by fast
qed

text \<open>
  With a device pixel ratio of 0.001 the fringe width is 1000: a stroke of width one is
  raised to it, and both the expansion pass and the backend receive 1000.
\<close>

theorem Stroke_width_above_200_counterexample:
  "strokeWidths (Stroke euclid refTess ctxCoarse) = Some (1000, 1000) \<and> (200 :: real) < 1000"
proof -
  from ctxCoarse_returns
  obtain r where r: "Stroke euclid refTess ctxCoarse = Inr r"
    by (cases "Stroke euclid refTess ctxCoarse") (simp_all add: returns_def)
  have thin: "effectiveStrokeWidth (last (states ctxCoarse)) < fringeWidth ctxCoarse"
    by (simp add: ctxCoarse_fields effective_one)
  note o = Stroke_observed(2) [OF r strokeWidthAndPaint_thin [OF thin]]
  show ?thesis unfolding o by (simp add: ctxCoarse_fields)
qed

section \<open>Properties of Fill\<close>

lemma countFillTriangles_frame:
  "cache (countFillTriangles ctx ps) = cache ctx \<and> states (countFillTriangles ctx ps) = states ctx"
  by (induction ps arbitrary: ctx) simp_all

lemma fillExpand_frame:
  "cache (fst (fillExpand ts state ctx)) =
     expandFill ts (if edgeAntiAlias ctx then fringeWidth ctx else 0) Miter 2.4 (fringeWidth ctx)
       (cache ctx)"
  "states (fst (fillExpand ts state ctx)) = states ctx"
  by (simp_all add: fillExpand_def Let_def countFillTriangles_frame)

lemma Fill_Inr:
  assumes "Fill g ts ctx = Inr r"
  shows "states ctx \<noteq> [] \<and>
    (\<exists>ctx1. flattenPaths g ts ctx = Inr ctx1 \<and> r = fillExpand ts (last (states ctx)) ctx1)"
proof -
  from assms have st: "states ctx \<noteq> []"
    by (auto simp: Fill_def getState_def split: if_splits)
  with assms show ?thesis
    by (cases "flattenPaths g ts ctx") (simp_all add: Fill_def getState_def)
qed

lemma Fill_cached:
  assumes "states ctx \<noteq> []" and "paths (cache ctx) \<noteq> []"
  shows "Fill g ts ctx = Inr (fillExpand ts (last (states ctx)) ctx)"
  using assms by (simp add: Fill_def getState_def flattenPaths_cached)

text \<open>
  C1. When the cache holds a path, \<^verbatim>\<open>flattenPaths\<close> returns the context as it is. So
  when a \<^verbatim>\<open>Fill\<close> has returned and left a path in the cache, a second \<^verbatim>\<open>Fill\<close> on the
  resulting context flattens nothing: it is the expansion, the backend call and the
  triangle count on the cached paths. The paths and bounds it leaves are those of the
  expansion pass applied to the cache of the first call, hence the very paths and bounds
  of the first call where the expansion pass reproduces the cache it is given.
\<close>

theorem flattenPaths_once_per_epoch:
  "(paths (cache ctx) \<noteq> [] \<longrightarrow> flattenPaths g ts ctx = Inr ctx) \<and>
   (Fill g ts ctx = Inr (ctx1, calls1) \<and> paths (cache ctx1) \<noteq> [] \<longrightarrow>
      flattenPaths g ts ctx1 = Inr ctx1 \<and>
      Fill g ts ctx1 = Inr (fillExpand ts (last (states ctx1)) ctx1) \<and>
      filledCache (Fill g ts ctx1) =
        Some (paths (expandFill ts (if edgeAntiAlias ctx1 then fringeWidth ctx1 else 0)
                Miter 2.4 (fringeWidth ctx1) (cache ctx1)),
              bounds (expandFill ts (if edgeAntiAlias ctx1 then fringeWidth ctx1 else 0)
                Miter 2.4 (fringeWidth ctx1) (cache ctx1))) \<and>
      (expandFill ts (if edgeAntiAlias ctx1 then fringeWidth ctx1 else 0) Miter 2.4
         (fringeWidth ctx1) (cache ctx1) = cache ctx1 \<longrightarrow>
       filledCache (Fill g ts ctx1) = filledCache (Fill g ts ctx)))"
proof (intro conjI impI)
  show "paths (cache ctx) \<noteq> [] \<Longrightarrow> flattenPaths g ts ctx = Inr ctx"
    by (rule flattenPaths_cached)
next
  assume h: "Fill g ts ctx = Inr (ctx1, calls1) \<and> paths (cache ctx1) \<noteq> []"
  then show "flattenPaths g ts ctx1 = Inr ctx1" by (simp add: flattenPaths_cached)
next
  assume h: "Fill g ts ctx = Inr (ctx1, calls1) \<and> paths (cache ctx1) \<noteq> []"
  from Fill_Inr [of g ts ctx "(ctx1, calls1)"] h obtain c where
    st: "states ctx \<noteq> []" and c: "(ctx1, calls1) = fillExpand ts (last (states ctx)) c"
    and fl: "flattenPaths g ts ctx = Inr c" by blast
  have "states c = states ctx" by (subst flattenPaths_frame [OF fl]) simp
  moreover have "ctx1 = fst (fillExpand ts (last (states ctx)) c)" using c by (metis fst_conv)
  ultimately have st1: "states ctx1 \<noteq> []" using st by (simp add: fillExpand_frame)
  with h show "Fill g ts ctx1 = Inr (fillExpand ts (last (states ctx1)) ctx1)"
    by (simp add: Fill_cached)
  then show "filledCache (Fill g ts ctx1) =
        Some (paths (expandFill ts (if edgeAntiAlias ctx1 then fringeWidth ctx1 else 0)
                Miter 2.4 (fringeWidth ctx1) (cache ctx1)),
              bounds (expandFill ts (if edgeAntiAlias ctx1 then fringeWidth ctx1 else 0)
                Miter 2.4 (fringeWidth ctx1) (cache ctx1)))"
    using fillExpand_frame(1) [of ts "last (states ctx1)" ctx1]
    by (simp add: filledCache_def case_prod_unfold)
  then show "expandFill ts (if edgeAntiAlias ctx1 then fringeWidth ctx1 else 0) Miter 2.4
         (fringeWidth ctx1) (cache ctx1) = cache ctx1 \<Longrightarrow>
       filledCache (Fill g ts ctx1) = filledCache (Fill g ts ctx)"
    using h by (simp add: filledCache_def)
qed

lemma Fill_line:
  "Fill euclid refTess ctxLine =
     Inr (ctxLineFilled, snd (fillExpand refTess (last (states ctxLine)) ctxLineFlat))"
proof -
  have st: "states ctxLine \<noteq> []" by (simp add: ctxLine_def ctxI_def ctx0_def)
  show ?thesis
    using st by (simp add: Fill_def getState_def line_flatten ctxLineFlat_def ctxLineFilled_def)
qed

lemma ctxLineFilled_cache:
  "cache ctxLineFilled = emptyCache\<lparr>points :=
       [pt 0 0 1 0 1 nvgPtCORNER, pt 1 0 (- 1) 0 1 nvgPtCORNER],
     paths := [pathOf 0 2 False Solid], bounds := (0, 0, 1, 0)\<rparr>"
  by (simp add: ctxLineFilled_def fillExpand_frame refTess_def ctxLineFlat_def)

theorem flattenPaths_once_per_epoch_witness:
  "flattenPaths euclid refTess ctxLineFilled = Inr ctxLineFilled \<and>
   filledCache (Fill euclid refTess ctxLine) = Some ([pathOf 0 2 False Solid], (0, 0, 1, 0)) \<and>
   filledCache (Fill euclid refTess ctxLineFilled) = filledCache (Fill euclid refTess ctxLine)"
proof -
  have p: "paths (cache ctxLineFilled) \<noteq> []"
    by (simp add: ctxLineFilled_cache)
  have e: "expandFill refTess (if edgeAntiAlias ctxLineFilled then fringeWidth ctxLineFilled else 0)
      Miter 2.4 (fringeWidth ctxLineFilled) (cache ctxLineFilled) = cache ctxLineFilled"
    by (simp add: refTess_def)
  note t = flattenPaths_once_per_epoch [where ctx = ctxLine and g = euclid and ts = refTess
      and ?ctx1.0 = ctxLineFilled
      and ?calls1.0 = "snd (fillExpand refTess (last (states ctxLine)) ctxLineFlat)"]
  have a: "flattenPaths euclid refTess ctxLineFilled = Inr ctxLineFilled"
    using t Fill_line p by blast
  have b: "filledCache (Fill euclid refTess ctxLineFilled) = filledCache (Fill euclid refTess ctxLine)"
    using t Fill_line p e by blast
  have c: "filledCache (Fill euclid refTess ctxLine) = Some ([pathOf 0 2 False Solid], (0, 0, 1, 0))"
    by (simp add: Fill_line filledCache_def ctxLineFilled_cache)
  from a c b show ?thesis by fast
qed

section \<open>Properties of the polygon area\<close>

lemma cr_antisym: "cr p q = - cr q p"
  by (simp add: cr_def)

lemma cr_self: "cr p p = 0"
  by (simp add: cr_def)

lemma triarea2_cr:
  "triarea2 (pt_x a) (pt_y a) (pt_x b) (pt_y b) (pt_x c) (pt_y c) =
     - (cr (ptXY a) (ptXY b) + cr (ptXY b) (ptXY c) + cr (ptXY c) (ptXY a))"
  by (simp add: triarea2_def cr_def ptXY_def Let_def algebra_simps)

lemma fanArea2_chain:
  "fanArea2 a (b # rest) =
     - (cr (ptXY a) (ptXY b) + chain (map ptXY (b # rest)) + cr (ptXY (last (b # rest))) (ptXY a))"
proof (induction rest arbitrary: b)
  case Nil
  show ?case using cr_antisym [of "ptXY a" "ptXY b"] by simp
next
  case (Cons c rest)
  have "fanArea2 a (b # c # rest) =
      triarea2 (pt_x a) (pt_y a) (pt_x b) (pt_y b) (pt_x c) (pt_y c) + fanArea2 a (c # rest)"
    by simp
  also have "\<dots> = - (cr (ptXY a) (ptXY b) + cr (ptXY b) (ptXY c) + cr (ptXY c) (ptXY a))
      - (cr (ptXY a) (ptXY c) + chain (map ptXY (c # rest)) + cr (ptXY (last (c # rest))) (ptXY a))"
    by (simp only: triarea2_cr Cons.IH)
  also have "\<dots> = - (cr (ptXY a) (ptXY b) + chain (map ptXY (b # c # rest)) +
      cr (ptXY (last (b # c # rest))) (ptXY a))"
    using cr_antisym [of "ptXY c" "ptXY a"] by simp
  finally show ?case .
qed

lemma fan_cyc:
  "(case xs of [] \<Rightarrow> 0 | a # rest \<Rightarrow> fanArea2 a rest * 0.5) = - cyc (map ptXY xs) * 0.5"
proof (cases xs)
  case Nil
  then show ?thesis by (simp add: cyc_def)
next
  case (Cons a rest)
  show ?thesis
  proof (cases rest)
    case Nil
    with Cons show ?thesis by (simp add: cyc_def cr_self)
  next
    case (Cons b rest')
    with \<open>xs = a # rest\<close> show ?thesis
      by (simp add: cyc_def fanArea2_chain last_map)
  qed
qed

lemma polyArea_cyc:
  "polyArea pts npts = - cyc (map ptXY (take (nat npts) pts)) * 0.5"
  unfolding polyArea_def by (rule fan_cyc)

lemma chain_snoc:
  "chain (xs @ [a]) = chain xs + (if xs = [] then 0 else cr (last xs) a)"
proof (induction xs rule: chain.induct)
  case (1 a' b rest)
  then show ?case by simp
qed simp_all

lemma chain_rev: "chain (rev xs) = - chain xs"
proof (induction xs rule: chain.induct)
  case (1 a b rest)
  have "chain (rev (a # b # rest)) = chain (rev (b # rest) @ [a])" by simp
  also have "\<dots> = chain (rev (b # rest)) + cr (last (rev (b # rest))) a"
    by (simp only: chain_snoc) simp
  also have "\<dots> = - chain (b # rest) + cr b a"
    using "1.IH" by (simp add: last_rev)
  also have "\<dots> = - chain (a # b # rest)"
    using cr_antisym [of a b] by simp
  finally show ?case .
qed simp_all

lemma cyc_rev: "cyc (rev xs) = - cyc xs"
proof (cases xs)
  case Nil
  then show ?thesis by (simp add: cyc_def)
next
  case (Cons a rest)
  have ne: "rev xs \<noteq> []" using Cons by simp
  then obtain b rest' where r: "rev xs = b # rest'" by (cases "rev xs") auto
  have b: "b = last xs" using r by (metis hd_rev list.sel(1))
  have l: "last (rev xs) = a" using Cons by (simp add: last_rev)
  have "cyc (rev xs) = chain (rev xs) + cr (last (rev xs)) b"
    by (simp add: cyc_def r)
  also have "\<dots> = - chain xs + cr a (last xs)" by (simp add: chain_rev l b)
  also have "\<dots> = - (chain xs + cr (last xs) a)" using cr_antisym [of a "last xs"] by simp
  also have "\<dots> = - cyc xs" by (simp add: cyc_def Cons)
  finally show ?thesis .
qed

lemma revSeg_length: "length (revSeg b n xs) = length xs"
  by (simp add: revSeg_def)

lemma revSeg_inside:
  assumes "b + n \<le> length xs"
  shows "take n (drop b (revSeg b n xs)) = rev (take n (drop b xs))"
proof -
  have lb: "length (take b xs) = b" using assms by simp
  have ln: "length (rev (take n (drop b xs))) = n" using assms by simp
  have "drop b (revSeg b n xs) = rev (take n (drop b xs)) @ drop (b + n) xs"
    unfolding revSeg_def using lb by (metis append_eq_conv_conj)
  then show ?thesis using ln by (metis append_eq_conv_conj)
qed

lemma revSeg_before:
  assumes "b' + n' \<le> b"
  shows "take n' (drop b' (revSeg b n xs)) = take n' (drop b' xs)"
proof (rule nth_equalityI)
  show "length (take n' (drop b' (revSeg b n xs))) = length (take n' (drop b' xs))"
    by (simp add: revSeg_length)
next
  fix i assume i: "i < length (take n' (drop b' (revSeg b n xs)))"
  then have i1: "i < n'" and i2: "b' + i < length xs" by (auto simp: revSeg_length)
  have lt: "b' + i < b" using i1 assms by simp
  have "revSeg b n xs ! (b' + i) = take b xs ! (b' + i)"
    unfolding revSeg_def using lt i2 by (simp add: nth_append)
  also have "\<dots> = xs ! (b' + i)" using lt by simp
  finally show "take n' (drop b' (revSeg b n xs)) ! i = take n' (drop b' xs) ! i"
    using i1 i2 by (simp add: revSeg_length)
qed

lemma revSeg_map: "map f (revSeg b n xs) = revSeg b n (map f xs)"
  by (simp add: revSeg_def take_map drop_map rev_map)

lemma polyReverse_revSeg: "polyReverse arena base npts = revSeg base (nat npts) arena"
  by (simp add: polyReverse_def revSeg_def)

lemma segLoop_step:
  assumes "i < cnt" and "p0i < length arena" and "p1i < length arena"
  shows "segLoop g n base cnt i (arena, bnds, p0i, p1i, k) =
    (if n \<noteq> k + 1 \<and> \<not> k + 1 < n then Inl Panic
     else segLoop g n base cnt (i + 1)
       (arena[p0i := (arena ! p0i)\<lparr>
            pt_len := fst (normalize g (pt_x (arena ! p1i) - pt_x (arena ! p0i))
                              (pt_y (arena ! p1i) - pt_y (arena ! p0i))),
            pt_dx := fst (snd (normalize g (pt_x (arena ! p1i) - pt_x (arena ! p0i))
                              (pt_y (arena ! p1i) - pt_y (arena ! p0i)))),
            pt_dy := snd (snd (normalize g (pt_x (arena ! p1i) - pt_x (arena ! p0i))
                              (pt_y (arena ! p1i) - pt_y (arena ! p0i))))\<rparr>],
        (minF (fst bnds) (pt_x (arena ! p0i)), minF (fst (snd bnds)) (pt_y (arena ! p0i)),
         maxF (fst (snd (snd bnds))) (pt_x (arena ! p0i)),
         maxF (snd (snd (snd bnds))) (pt_y (arena ! p0i))),
        p1i, (if n \<noteq> k + 1 then base + (k + 1) else p1i), k + 1))"
  using assms
  by (subst segLoop.simps) (simp add: Let_def case_prod_unfold)

lemma segLoop_done:
  "\<not> i < cnt \<Longrightarrow> segLoop g n base cnt i (arena, bnds, p0i, p1i, k) = Inr (arena, bnds)"
  by (subst segLoop.simps) simp

lemma segLoop_guard:
  "i < cnt \<Longrightarrow> \<not> (p0i < length arena \<and> p1i < length arena) \<Longrightarrow>
   segLoop g n base cnt i (arena, bnds, p0i, p1i, k) = Inl Panic"
  by (subst segLoop.simps) auto

lemma segLoop_xy:
  "segLoop g n base cnt i (arena, bnds, p0i, p1i, k) = Inr (arena', bnds') \<Longrightarrow>
   map ptXY arena' = map ptXY arena"
proof (induction "nat (cnt - i)" arbitrary: i arena bnds p0i p1i k)
  case 0
  then have "\<not> i < cnt" by simp
  with "0.prems" show ?case by (simp add: segLoop_done)
next
  case (Suc m)
  then have lt: "i < cnt" by linarith
  have inr: "p0i < length arena \<and> p1i < length arena"
    using Suc.prems segLoop_guard [OF lt, of p0i arena p1i g n base bnds k] by auto
  let ?p0 = "(arena ! p0i)\<lparr>
            pt_len := fst (normalize g (pt_x (arena ! p1i) - pt_x (arena ! p0i))
                              (pt_y (arena ! p1i) - pt_y (arena ! p0i))),
            pt_dx := fst (snd (normalize g (pt_x (arena ! p1i) - pt_x (arena ! p0i))
                              (pt_y (arena ! p1i) - pt_y (arena ! p0i)))),
            pt_dy := snd (snd (normalize g (pt_x (arena ! p1i) - pt_x (arena ! p0i))
                              (pt_y (arena ! p1i) - pt_y (arena ! p0i))))\<rparr>"
  let ?arena1 = "arena[p0i := ?p0]"
  from Suc.prems inr lt obtain b1 q0 q1 where
    rec: "segLoop g n base cnt (i + 1) (?arena1, b1, q0, q1, k + 1) = Inr (arena', bnds')"
    by (simp add: segLoop_step split: if_splits)
  have m: "m = nat (cnt - (i + 1))" using Suc.hyps(2) by linarith
  from Suc.hyps(1) [OF m rec] have "map ptXY arena' = map ptXY ?arena1" .
  also have "\<dots> = (map ptXY arena)[p0i := ptXY ?p0]" by (simp add: map_update)
  also have "ptXY ?p0 = map ptXY arena ! p0i" using inr by (simp add: ptXY_def)
  also have "(map ptXY arena)[p0i := map ptXY arena ! p0i] = map ptXY arena"
    by (rule list_update_id)
  finally show ?case .
qed

section \<open>Properties of the winding of flattened paths\<close>

lemma laid_mono_end: "laid s ps e \<Longrightarrow> e \<le> e' \<Longrightarrow> laid s ps e'"
  by (induction ps arbitrary: s) auto

lemma laid_mono_start: "laid s ps e \<Longrightarrow> s' \<le> s \<Longrightarrow> laid s' ps e"
  by (cases ps) auto

lemma laid_snoc:
  "laid s (ps @ [p]) e = (laid s ps (first p) \<and> 0 \<le> count p \<and> first p + count p \<le> e)"
  by (induction ps arbitrary: s) auto

lemma laid_bounds: "laid s ps e \<Longrightarrow> s \<le> e"
proof (induction ps arbitrary: s)
  case Nil
  then show ?case by simp
next
  case (Cons p ps)
  then have "first p + count p \<le> e" by simp
  with Cons.prems show ?case by simp
qed

lemma laid_nth:
  "laid s ps e \<Longrightarrow> j < length ps \<Longrightarrow>
   s \<le> first (ps ! j) \<and> 0 \<le> count (ps ! j) \<and> first (ps ! j) + count (ps ! j) \<le> e"
proof (induction ps arbitrary: s j)
  case Nil
  then show ?case by simp
next
  case (Cons p ps)
  show ?case
  proof (cases j)
    case 0
    have "laid (first p + count p) ps e" using Cons.prems(1) by simp
    then have "first p + count p \<le> e" by (rule laid_bounds)
    with Cons.prems(1) 0 show ?thesis by simp
  next
    case (Suc k)
    with Cons.prems have "laid (first p + count p) ps e" "k < length ps" by simp_all
    from Cons.IH [OF this] Cons.prems(1) Suc show ?thesis by auto
  qed
qed

lemma laid_order:
  "laid s ps e \<Longrightarrow> i < j \<Longrightarrow> j < length ps \<Longrightarrow>
   first (ps ! i) + count (ps ! i) \<le> first (ps ! j)"
proof (induction ps arbitrary: s i j)
  case Nil
  then show ?case by simp
next
  case (Cons p ps)
  from Cons.prems obtain k where j: "j = Suc k" by (cases j) auto
  have tl: "laid (first p + count p) ps e" using Cons.prems(1) by simp
  show ?case
  proof (cases i)
    case 0
    from laid_nth [OF tl, of k] Cons.prems(3) j have "first p + count p \<le> first (ps ! k)" by simp
    with 0 j show ?thesis by simp
  next
    case (Suc i')
    with Cons.prems j have "i' < k" "k < length ps" by simp_all
    from Cons.IH [OF tl this] Suc j show ?thesis by simp
  qed
qed

lemma laid_update:
  "laid s ps e \<Longrightarrow> j < length ps \<Longrightarrow> first p' = first (ps ! j) \<Longrightarrow> 0 \<le> count p' \<Longrightarrow>
   count p' \<le> count (ps ! j) \<Longrightarrow> laid s (ps[j := p']) e"
proof (induction ps arbitrary: s j)
  case Nil
  then show ?case by simp
next
  case (Cons p ps)
  show ?case
  proof (cases j)
    case 0
    with Cons.prems have "laid (first p + count p) ps e" "first p' + count p' \<le> first p + count p"
      by simp_all
    then have "laid (first p' + count p') ps e" by (rule laid_mono_start)
    with Cons.prems 0 show ?thesis by simp
  next
    case (Suc k)
    with Cons.prems have "laid (first p + count p) ps e" "k < length ps"
      "first p' = first (ps ! k)" "count p' \<le> count (ps ! k)" by simp_all
    from Cons.IH [OF this(1,2,3) Cons.prems(4) this(4)] Cons.prems(1) Suc show ?thesis by simp
  qed
qed

lemma update_last: "ps \<noteq> [] \<Longrightarrow> ps[length ps - 1 := p] = butlast ps @ [p]"
  by (induction ps) (auto split: nat.splits)

lemma laid_set_last:
  assumes "laid s ps e" and "ps \<noteq> []" and "first p = first (last ps)" and "0 \<le> count p"
    and "first p + count p \<le> e'"
  shows "laid s (ps[length ps - 1 := p]) e'"
proof -
  from assms(2) have ps: "ps = butlast ps @ [last ps]" by simp
  from assms(1) have "laid s (butlast ps @ [last ps]) e" using ps by simp
  then have "laid s (butlast ps) (first (last ps))" by (simp add: laid_snoc)
  then have "laid s (butlast ps @ [p]) e'" using assms by (simp add: laid_snoc)
  then show ?thesis by (simp only: update_last [OF assms(2)])
qed

lemma addPath_laid: "cacheLaid c \<Longrightarrow> cacheLaid (addPath c)"
  by (simp add: cacheLaid_def addPath_def laid_snoc)

lemma addPoint_laid:
  assumes "cacheLaid c" and "addPoint g c px py fl tol = Inr c'"
  shows "cacheLaid c'"
proof (cases "paths c = []")
  case True
  with assms(2) show ?thesis by (simp add: addPoint_def lastPath_def)
next
  case False
  from assms(1) have l: "laid 0 (paths c) (int (length (points c)))" by (simp add: cacheLaid_def)
  from laid_nth [OF l, of "length (paths c) - 1"] False
  have r: "0 \<le> count (last (paths c))"
    "first (last (paths c)) + count (last (paths c)) \<le> int (length (points c))"
    by (simp_all add: last_conv_nth)
  show ?thesis
  proof (cases "count (last (paths c)) > 0 \<and> length (points c) > 0 \<and>
            ptEquals g (pt_x (last (points c))) (pt_y (last (points c))) px py tol")
    case True
    with assms(2) False have "c' = c\<lparr>points := (points c)[length (points c) - 1 :=
        (last (points c))\<lparr>pt_flags := pt_flags (last (points c)) OR fl\<rparr>]\<rparr>"
      by (simp add: addPoint_def lastPath_def)
    with l show ?thesis by (simp add: cacheLaid_def)
  next
    case dedup: False
    with assms(2) False have c': "c' = setLastPath
                (c\<lparr>points := points c @
                    [\<lparr>pt_x = px, pt_y = py, pt_dx = 0, pt_dy = 0, pt_len = 0, pt_dmx = 0,
                      pt_dmy = 0, pt_flags = fl\<rparr>]\<rparr>)
                ((last (paths c))\<lparr>count := count (last (paths c)) + 1\<rparr>)"
      by (auto simp: addPoint_def lastPath_def)
    have "laid 0 ((paths c)[length (paths c) - 1 :=
        (last (paths c))\<lparr>count := count (last (paths c)) + 1\<rparr>]) (int (length (points c)) + 1)"
      by (rule laid_set_last [OF l False]) (use r in simp_all)
    then show ?thesis by (simp add: c' cacheLaid_def setLastPath_def add.commute)
  qed
qed

lemma setLastPath_laid:
  assumes "cacheLaid c" and "paths c \<noteq> []" and "first p = first (last (paths c))"
    and "count p = count (last (paths c))"
  shows "cacheLaid (setLastPath c p)"
proof -
  from assms(1) have l: "laid 0 (paths c) (int (length (points c)))" by (simp add: cacheLaid_def)
  from laid_nth [OF l, of "length (paths c) - 1"] assms(2)
  have r: "0 \<le> count (last (paths c))"
    "first (last (paths c)) + count (last (paths c)) \<le> int (length (points c))"
    by (simp_all add: last_conv_nth)
  have "laid 0 ((paths c)[length (paths c) - 1 := p]) (int (length (points c)))"
    by (rule laid_set_last [OF l assms(2) assms(3)]) (use r assms(3,4) in simp_all)
  then show ?thesis by (simp add: cacheLaid_def setLastPath_def)
qed

lemma closePath_laid: "cacheLaid c \<Longrightarrow> cacheLaid (closePath c)"
  by (cases "paths c = []") (simp_all add: closePath_def lastPath_def setLastPath_laid)

lemma pathWinding_laid: "cacheLaid c \<Longrightarrow> cacheLaid (pathWinding c w)"
  by (cases "paths c = []") (simp_all add: pathWinding_def lastPath_def setLastPath_laid)

lemma addPoints_laid:
  "cacheLaid c \<Longrightarrow> addPoints g c pts tol = Inr c' \<Longrightarrow> cacheLaid c'"
proof (induction pts arbitrary: c)
  case Nil
  then show ?case by simp
next
  case (Cons p pts)
  obtain px py fl where p: "p = (px, py, fl)" by (cases p) auto
  from Cons.prems(2) obtain c1 where a: "addPoint g c px py fl tol = Inr c1"
    and b: "addPoints g c1 pts tol = Inr c'"
    by (auto simp: p bind_def split: sum.splits)
  from addPoint_laid [OF Cons.prems(1) a] b show ?case by (rule Cons.IH)
qed

lemma tesselateBezier_laid:
  "cacheLaid c \<Longrightarrow>
   tesselateBezier g ts c x1 y1 x2 y2 x3 y3 x4 y4 level fl tt dt = Inr c' \<Longrightarrow> cacheLaid c'"
  unfolding tesselateBezier_def by (rule addPoints_laid)

lemma flattenCommands_laid:
  "cacheLaid c \<Longrightarrow> flattenCommands g ts tt dt cmds c = Inr c' \<Longrightarrow> cacheLaid c'"
proof (induction g ts tt dt cmds c rule: flattenCommands.induct)
  case (1 g ts tt dt c)
  then show ?case by simp
next
  case (2 g ts tt dt cmd rest c)
  consider (move) "toInt cmd = nvgMOVETO"
    | (line) "toInt cmd \<noteq> nvgMOVETO" "toInt cmd = nvgLINETO"
    | (bezier) "toInt cmd \<noteq> nvgMOVETO" "toInt cmd \<noteq> nvgLINETO" "toInt cmd = nvgBEZIERTO"
    | (close) "toInt cmd \<noteq> nvgMOVETO" "toInt cmd \<noteq> nvgLINETO" "toInt cmd \<noteq> nvgBEZIERTO"
        "toInt cmd = nvgCLOSE"
    | (wind) "toInt cmd \<noteq> nvgMOVETO" "toInt cmd \<noteq> nvgLINETO" "toInt cmd \<noteq> nvgBEZIERTO"
        "toInt cmd \<noteq> nvgCLOSE" "toInt cmd = nvgWINDING"
    | (other) "toInt cmd \<noteq> nvgMOVETO" "toInt cmd \<noteq> nvgLINETO" "toInt cmd \<noteq> nvgBEZIERTO"
        "toInt cmd \<noteq> nvgCLOSE" "toInt cmd \<noteq> nvgWINDING"
    by blast
  then show ?case
  proof cases
    case move
    from "2.prems"(2) move obtain a b r c1 where rest: "rest = a # b # r"
      and ap: "addPoint g (addPath c) a b nvgPtCORNER dt = Inr c1"
      and fc: "flattenCommands g ts tt dt r c1 = Inr c'"
      by (auto simp: bind_def split: list.splits sum.splits)
    have "cacheLaid c1" using addPoint_laid [OF addPath_laid [OF "2.prems"(1)] ap] .
    from "2.IH"(1) [OF move rest refl this fc] show ?thesis .
  next
    case line
    from "2.prems"(2) line obtain a b r c1 where rest: "rest = a # b # r"
      and ap: "addPoint g c a b nvgPtCORNER dt = Inr c1"
      and fc: "flattenCommands g ts tt dt r c1 = Inr c'"
      by (auto simp: bind_def split: list.splits sum.splits)
    have "cacheLaid c1" using addPoint_laid [OF "2.prems"(1) ap] .
    from "2.IH"(2) [OF line rest refl this fc] show ?thesis .
  next
    case bezier
    show ?thesis
    proof (cases "lastPoint c")
      case None
      with "2.prems"(2) bezier have fc: "flattenCommands g ts tt dt (drop 6 rest) c = Inr c'"
        by simp
      from "2.IH"(3) [OF bezier None "2.prems"(1) fc] show ?thesis .
    next
      case (Some lastpt)
      with "2.prems"(2) bezier obtain a1 b1 a2 b2 a3 b3 r c1 where
        rest: "rest = a1 # b1 # a2 # b2 # a3 # b3 # r"
        and tb: "tesselateBezier g ts c (pt_x lastpt) (pt_y lastpt) a1 b1 a2 b2 a3 b3
                         0 nvgPtCORNER tt dt = Inr c1"
        and fc: "flattenCommands g ts tt dt r c1 = Inr c'"
        by (auto simp: bind_def split: list.splits sum.splits)
      have "cacheLaid c1" using tesselateBezier_laid [OF "2.prems"(1) tb] .
      from "2.IH"(4) [OF bezier Some rest refl refl refl refl refl this fc] show ?thesis .
    qed
  next
    case close
    with "2.prems"(2) have fc: "flattenCommands g ts tt dt rest (closePath c) = Inr c'" by simp
    from "2.IH"(5) [OF close closePath_laid [OF "2.prems"(1)] fc] show ?thesis .
  next
    case wind
    from "2.prems"(2) wind obtain w r where rest: "rest = w # r"
      and fc: "flattenCommands g ts tt dt r (pathWinding c (toInt w)) = Inr c'"
      by (auto split: list.splits)
    from "2.IH"(6) [OF wind rest pathWinding_laid [OF "2.prems"(1)] fc] show ?thesis .
  next
    case other
    with "2.prems"(2) have fc: "flattenCommands g ts tt dt rest c = Inr c'" by simp
    from "2.IH"(7) [OF other "2.prems"(1) fc] show ?thesis .
  qed
qed

lemma map_take_drop: "map f (take n (drop b xs)) = take n (drop b (map f xs))"
  by (simp add: take_map drop_map)

lemma polyArea_xy:
  assumes "map ptXY ar = map ptXY ar'"
  shows "polyArea (drop b ar) n = polyArea (drop b ar') n"
  unfolding polyArea_cyc map_take_drop using assms by simp

lemma polyArea_reverse:
  assumes "b + nat n \<le> length ar"
  shows "polyArea (drop b (polyReverse ar b n)) n = - polyArea (drop b ar) n"
proof -
  have le: "b + nat n \<le> length (map ptXY ar)" using assms by simp
  have "map ptXY (take (nat n) (drop b (polyReverse ar b n))) =
        take (nat n) (drop b (revSeg b (nat n) (map ptXY ar)))"
    by (simp only: polyReverse_revSeg map_take_drop revSeg_map)
  also have "\<dots> = rev (take (nat n) (drop b (map ptXY ar)))"
    using le by (rule revSeg_inside)
  also have "\<dots> = rev (map ptXY (take (nat n) (drop b ar)))"
    by (simp only: map_take_drop)
  finally have "cyc (map ptXY (take (nat n) (drop b (polyReverse ar b n)))) =
      - cyc (map ptXY (take (nat n) (drop b ar)))"
    by (simp only: cyc_rev)
  then show ?thesis by (simp only: polyArea_cyc)
qed

lemma polyArea_reverse_before:
  assumes "b' + nat n' \<le> b"
  shows "polyArea (drop b' (polyReverse ar b n)) n' = polyArea (drop b' ar) n'"
proof -
  have "map ptXY (take (nat n') (drop b' (polyReverse ar b n))) =
        take (nat n') (drop b' (revSeg b (nat n) (map ptXY ar)))"
    by (simp only: polyReverse_revSeg map_take_drop revSeg_map)
  also have "\<dots> = take (nat n') (drop b' (map ptXY ar))"
    using assms by (rule revSeg_before)
  also have "\<dots> = map ptXY (take (nat n') (drop b' ar))"
    by (simp only: map_take_drop)
  finally show ?thesis by (simp only: polyArea_cyc)
qed

lemma fan_small:
  assumes "length xs \<le> 2"
  shows "(case xs of [] \<Rightarrow> 0 | a # rest \<Rightarrow> fanArea2 a rest * 0.5) = (0::real)"
proof (cases xs)
  case Nil
  then show ?thesis by simp
next
  case (Cons a rest)
  show ?thesis
  proof (cases rest)
    case Nil
    with Cons show ?thesis by simp
  next
    case (Cons b rest')
    with assms \<open>xs = a # rest\<close> have "rest' = []" by simp
    with Cons \<open>xs = a # rest\<close> show ?thesis by simp
  qed
qed

lemma polyArea_small: "n \<le> 2 \<Longrightarrow> polyArea pts n = 0"
  unfolding polyArea_def by (rule fan_small) simp

lemma polyReverse_length: "length (polyReverse ar b n) = length ar"
  by (simp add: polyReverse_revSeg revSeg_length)

lemma enforceWinding_length: "length (enforceWinding ar b p) = length ar"
  by (simp add: enforceWinding_def Let_def polyReverse_length)

lemma Solid_neq_Hole: "Solid \<noteq> Hole"
  by (simp add: Solid_def Hole_def)

lemma enforceWinding_agrees:
  assumes "b + nat (count p) \<le> length ar"
  shows "(winding p = Solid \<longrightarrow> 0 \<le> polyArea (drop b (enforceWinding ar b p)) (count p)) \<and>
         (winding p = Hole \<longrightarrow> polyArea (drop b (enforceWinding ar b p)) (count p) \<le> 0)"
proof (cases "count p > 2")
  case False
  then have "polyArea (drop b (enforceWinding ar b p)) (count p) = 0"
    by (intro polyArea_small) simp
  then show ?thesis by simp
next
  case True
  note r = polyArea_reverse [OF assms]
  show ?thesis
    using True r Solid_neq_Hole by (auto simp: enforceWinding_def Let_def)
qed

lemma enforceWinding_before:
  assumes "b' + nat n' \<le> b"
  shows "polyArea (drop b' (enforceWinding ar b p)) n' = polyArea (drop b' ar) n'"
  using polyArea_reverse_before [OF assms] by (simp add: enforceWinding_def Let_def)

lemma dropClosingPoint_fields:
  "first (fst (dropClosingPoint g tol arena base path)) = first path \<and>
   winding (fst (dropClosingPoint g tol arena base path)) = winding path \<and>
   count (fst (dropClosingPoint g tol arena base path)) \<le> count path"
  using dropClosingPoint_cases [of g tol arena base path] by auto

lemma flattenPath_agrees:
  assumes step: "flattenPath g tol c j = Inr c1" and jlt: "j < length (paths c)"
    and laidc: "cacheLaid c"
    and prev: "\<forall>i<j. windingAgrees c (paths c ! i)"
  shows "cacheLaid c1" and "\<forall>i<j + 1. windingAgrees c1 (paths c1 ! i)"
proof -
  let ?path = "paths c ! j"
  let ?base = "nat (first ?path)"
  let ?d = "dropClosingPoint g tol (points c) ?base ?path"
  let ?p1 = "fst ?d"
  let ?ar1 = "enforceWinding (points c) ?base ?p1"
  from flattenPath_Inr [OF step] obtain arena2 bnds where
    seg: "segLoop g (length (points c) - ?base) ?base (count ?p1) 0
            (?ar1, bounds c, snd ?d, ?base, 0) = Inr (arena2, bnds)"
    and c1: "c1 = c\<lparr>points := arena2, paths := (paths c)[j := ?p1], bounds := bnds\<rparr>"
    by blast
  note gd = flattenPath_guards [OF step]
  have df: "first ?p1 = first ?path" "winding ?p1 = winding ?path" "count ?p1 \<le> count ?path"
    using dropClosingPoint_fields [of g tol "points c" ?base ?path] by auto
  have cnt1: "1 \<le> count ?p1" using gd(3) by (rule dropClosingPoint_count_ge)
  have xy: "map ptXY arena2 = map ptXY ?ar1" using seg by (rule segLoop_xy)
  have "length (map ptXY arena2) = length (map ptXY ?ar1)" using xy by simp
  then have len: "length arena2 = length (points c)"
    by (simp add: enforceWinding_length)
  have fit: "?base + nat (count ?p1) \<le> length (points c)"
    using gd df(3) by linarith
  have l0: "laid 0 (paths c) (int (length (points c)))"
    using laidc by (simp add: cacheLaid_def)
  have "laid 0 ((paths c)[j := ?p1]) (int (length (points c)))"
    using l0 jlt df(1) _ df(3) by (rule laid_update) (use cnt1 in simp)
  then show "cacheLaid c1" by (simp add: cacheLaid_def c1 len)
  show "\<forall>i<j + 1. windingAgrees c1 (paths c1 ! i)"
  proof (intro allI impI)
    fix i assume ij1: "i < j + 1"
    show "windingAgrees c1 (paths c1 ! i)"
    proof (cases "i = j")
      case True
      have pj: "paths c1 ! i = ?p1" using jlt True by (simp add: c1)
      have pts: "points c1 = arena2" by (simp add: c1)
      have "polyArea (drop ?base arena2) (count ?p1) = polyArea (drop ?base ?ar1) (count ?p1)"
        using xy by (rule polyArea_xy)
      with enforceWinding_agrees [OF fit] show ?thesis
        unfolding windingAgrees_def pj pts df(1) by simp
    next
      case False
      with ij1 have ij: "i < j" by simp
      let ?q = "paths c ! i"
      have pk: "paths c1 ! i = ?q" using False by (simp add: c1)
      have pts: "points c1 = arena2" by (simp add: c1)
      from laid_order [OF l0 ij jlt] have ord: "first ?q + count ?q \<le> first ?path" .
      from laid_nth [OF l0, of i] ij jlt have nn: "0 \<le> first ?q" "0 \<le> count ?q" by auto
      have before: "nat (first ?q) + nat (count ?q) \<le> ?base" using ord nn by linarith
      have "polyArea (drop (nat (first ?q)) arena2) (count ?q) =
            polyArea (drop (nat (first ?q)) ?ar1) (count ?q)"
        using xy by (rule polyArea_xy)
      also have "\<dots> = polyArea (drop (nat (first ?q)) (points c)) (count ?q)"
        using before by (rule enforceWinding_before)
      finally have eq: "polyArea (drop (nat (first ?q)) arena2) (count ?q) =
          polyArea (drop (nat (first ?q)) (points c)) (count ?q)" .
      from prev ij have "windingAgrees c ?q" by simp
      then show ?thesis unfolding windingAgrees_def pk pts eq .
    qed
  qed
qed

lemma pathsLoop_agrees:
  "pathsLoop g tol c j = Inr c' \<Longrightarrow> cacheLaid c \<Longrightarrow>
   (\<forall>i<j. i < length (paths c) \<longrightarrow> windingAgrees c (paths c ! i)) \<Longrightarrow>
   (\<forall>i < length (paths c'). windingAgrees c' (paths c' ! i))"
proof (induction g tol c j rule: pathsLoop.induct)
  case (1 g tol c j)
  show ?case
  proof (cases "j < length (paths c)")
    case False
    with "1.prems"(1) have "c' = c" by (simp add: pathsLoop.simps [of g tol c j])
    with False "1.prems"(3) show ?thesis by auto
  next
    case True
    with "1.prems"(1) obtain c1 where step: "flattenPath g tol c j = Inr c1"
      and rest: "pathsLoop g tol c1 (j + 1) = Inr c'"
      by (simp add: pathsLoop.simps [of g tol c j] split: sum.splits)
    have prev: "\<forall>i<j. windingAgrees c (paths c ! i)" using True "1.prems"(3) by auto
    note s = flattenPath_agrees [OF step True "1.prems"(2) prev]
    have inv: "\<forall>i<j + 1. i < length (paths c1) \<longrightarrow> windingAgrees c1 (paths c1 ! i)"
      using s(2) by simp
    from True step rest s(1) inv show ?thesis by (rule "1.IH")
  qed
qed

lemma windingAgrees_bounds [simp]:
  "windingAgrees (c\<lparr>bounds := b\<rparr>) p = windingAgrees c p"
  by (simp add: windingAgrees_def)

lemma cacheLaid_bounds [simp]: "cacheLaid (c\<lparr>bounds := b\<rparr>) = cacheLaid c"
  by (simp add: cacheLaid_def)

lemma cacheLaid_no_paths: "paths c = [] \<Longrightarrow> cacheLaid c"
  by (simp add: cacheLaid_def)

text \<open>
  C3. After \<^verbatim>\<open>flattenPaths\<close> has returned, the sign of the signed polygon area of every
  path of the cache agrees with the winding of the path: the area of a \<open>Solid\<close> path is
  not negative and the area of a \<open>Hole\<close> path is not positive. The second loop reverses
  the points of a path of more than two points whose area has the other sign, which
  negates the area; a path of at most two points has area zero; the reversal of one path
  and the segment data written afterwards leave the coordinates of the other paths as they
  were. A call that finds paths in the cache returns it as it is, so the property is
  stated as an invariant: whatever holds of the cache before holds after, and a cache
  without paths, as \<^verbatim>\<open>BeginPath\<close> leaves it, satisfies the premise.
\<close>

theorem flattenPaths_winding_agrees:
  assumes "flattenPaths g ts ctx = Inr ctx1"
    and "\<forall>p \<in> set (paths (cache ctx)). windingAgrees (cache ctx) p"
  shows "\<forall>p \<in> set (paths (cache ctx1)). windingAgrees (cache ctx1) p"
proof (cases "length (paths (cache ctx)) > 0")
  case True
  with assms(1) have "ctx1 = ctx" by (simp add: flattenPaths_def)
  with assms(2) show ?thesis by simp
next
  case False
  then have emp: "paths (cache ctx) = []" by simp
  from assms(1) False obtain c1 c2 where
    fc: "flattenCommands g ts (tessTol ctx) (distTol ctx) (commands ctx) (cache ctx) = Inr c1"
    and pl: "pathsLoop g (distTol ctx)
               (c1\<lparr>bounds := (1000000, 1000000, - 1000000, - 1000000)\<rparr>) 0 = Inr c2"
    and c: "ctx1 = ctx\<lparr>cache := c2\<rparr>"
    by (auto simp: flattenPaths_def bind_def split: sum.splits)
  have l1: "cacheLaid c1" using cacheLaid_no_paths [OF emp] fc by (rule flattenCommands_laid)
  have "\<forall>i < length (paths c2). windingAgrees c2 (paths c2 ! i)"
    using pl by (rule pathsLoop_agrees) (simp_all add: l1)
  then show ?thesis by (auto simp: c in_set_conv_nth)
qed

lemma ctxHole_calls:
  "bind (MoveTo ctxI 0 0) (\<lambda>c. bind (LineTo c 0 1) (\<lambda>c. bind (LineTo c 1 1)
     (\<lambda>c. bind (LineTo c 1 0) (\<lambda>c. bind (ClosePath c) (\<lambda>c. PathWinding c Hole))))) =
   Inr ctxHole"
  by (simp add: MoveTo_def LineTo_def ClosePath_def PathWinding_def appendCommand_def
      getState_def ctxI_def ctx0_def ctxHole_def opcodes_distinct TransformPoint_def
      IdentityMatrix_def Let_def)

lemma hole_commands:
  "flattenCommands euclid refTess (1 / 4) (1 / 100)
     [of_int nvgMOVETO, 0, 0, of_int nvgLINETO, 0, 1, of_int nvgLINETO, 1, 1,
      of_int nvgLINETO, 1, 0, of_int nvgCLOSE, of_int nvgWINDING, of_int Hole] emptyCache =
   Inr (emptyCache\<lparr>points := [pt 0 0 0 0 0 nvgPtCORNER, pt 0 1 0 0 0 nvgPtCORNER,
            pt 1 1 0 0 0 nvgPtCORNER, pt 1 0 0 0 0 nvgPtCORNER],
          paths := [pathOf 0 4 True Hole]\<rparr>)"
  by (simp add: opcodes_distinct addPath_def addPoint_def lastPath_def setLastPath_def
      closePath_def pathWinding_def
      emptyCache_def euclid_fields euclidPtEquals_def pt_def pathOf_def)

lemma hole_area_before:
  "polyArea [pt 0 0 0 0 0 fl, pt 0 1 0 0 0 fl, pt 1 1 0 0 0 fl, pt 1 0 0 0 0 fl] 4 = 1"
  by (simp add: polyArea_def triarea2_def pt_def)

lemma hole_path:
  "flattenPath euclid (1 / 100)
     (emptyCache\<lparr>points := [pt 0 0 0 0 0 fl, pt 0 1 0 0 0 fl, pt 1 1 0 0 0 fl, pt 1 0 0 0 0 fl],
          paths := [pathOf 0 4 True Hole],
          bounds := (1000000, 1000000, - 1000000, - 1000000)\<rparr>) 0 =
   Inr (emptyCache\<lparr>points := [pt 1 0 0 1 1 fl, pt 1 1 (- 1) 0 1 fl, pt 0 1 0 (- 1) 1 fl,
            pt 0 0 1 0 1 fl],
          paths := [pathOf 0 4 True Hole], bounds := (0, 0, 1, 1)\<rparr>)"
  by (simp add: flattenPath_def Let_def emptyCache_def dropClosingPoint_def enforceWinding_def
      polyArea_def triarea2_def polyReverse_def Solid_def Hole_def
      segLoop.simps euclid_fields euclidNormalize_def euclidPtEquals_def pt_def pathOf_def
      minF_def maxF_def)

lemma hole_flatten: "flattenPaths euclid refTess ctxHole = Inr ctxHoleFlat"
proof -
  have c: "cache ctxHole = emptyCache"
    "commands ctxHole = [of_int nvgMOVETO, 0, 0, of_int nvgLINETO, 0, 1, of_int nvgLINETO, 1, 1,
      of_int nvgLINETO, 1, 0, of_int nvgCLOSE, of_int nvgWINDING, of_int Hole]"
    "tessTol ctxHole = 1 / 4" "distTol ctxHole = 1 / 100"
    by (simp_all add: ctxHole_def ctxI_def ctx0_def)
  have p: "paths emptyCache = []" by (simp add: emptyCache_def)
  have loop: "pathsLoop euclid (1 / 100)
     (emptyCache\<lparr>points := [pt 0 0 0 0 0 nvgPtCORNER, pt 0 1 0 0 0 nvgPtCORNER,
            pt 1 1 0 0 0 nvgPtCORNER, pt 1 0 0 0 0 nvgPtCORNER],
          paths := [pathOf 0 4 True Hole],
          bounds := (1000000, 1000000, - 1000000, - 1000000)\<rparr>) 0 =
     Inr (emptyCache\<lparr>points := [pt 1 0 0 1 1 nvgPtCORNER, pt 1 1 (- 1) 0 1 nvgPtCORNER,
            pt 0 1 0 (- 1) 1 nvgPtCORNER, pt 0 0 1 0 1 nvgPtCORNER],
          paths := [pathOf 0 4 True Hole], bounds := (0, 0, 1, 1)\<rparr>)"
    by (simp add: pathsLoop.simps hole_path)
  show ?thesis
    unfolding flattenPaths_def c hole_commands by (simp add: p loop ctxHoleFlat_def)
qed

text \<open>The unit square declared a hole: its area 1 disagrees with the winding, the flattened
  path holds the points in the opposite order and has area \<open>- 1\<close>.\<close>

theorem flattenPaths_winding_agrees_witness:
  "paths (cache ctxHole) = [] \<and>
   polyArea [pt 0 0 0 0 0 nvgPtCORNER, pt 0 1 0 0 0 nvgPtCORNER, pt 1 1 0 0 0 nvgPtCORNER,
     pt 1 0 0 0 0 nvgPtCORNER] 4 = 1 \<and>
   flattenPaths euclid refTess ctxHole = Inr ctxHoleFlat \<and>
   paths (cache ctxHoleFlat) = [pathOf 0 4 True Hole] \<and>
   map ptXY (points (cache ctxHoleFlat)) = [(1, 0), (1, 1), (0, 1), (0, 0)] \<and>
   polyArea (points (cache ctxHoleFlat)) 4 = - 1 \<and>
   windingAgrees (cache ctxHoleFlat) (pathOf 0 4 True Hole)"
proof -
  have h1: "paths (cache ctxHole) = []"
    by (simp add: ctxHole_def ctxI_def ctx0_def emptyCache_def)
  have h2: "\<forall>p \<in> set (paths (cache ctxHole)). windingAgrees (cache ctxHole) p"
    by (simp add: h1)
  have ps: "paths (cache ctxHoleFlat) = [pathOf 0 4 True Hole]"
    by (simp add: ctxHoleFlat_def)
  have xy: "map ptXY (points (cache ctxHoleFlat)) = [(1, 0), (1, 1), (0, 1), (0, 0)]"
    by (simp add: ctxHoleFlat_def ptXY_def pt_def)
  have ar: "polyArea (points (cache ctxHoleFlat)) 4 = - 1"
    by (simp add: ctxHoleFlat_def polyArea_def triarea2_def pt_def)
  from flattenPaths_winding_agrees [OF hole_flatten h2]
  have ag: "windingAgrees (cache ctxHoleFlat) (pathOf 0 4 True Hole)"
    by (simp add: ps)
  from h1 hole_area_before hole_flatten ps xy ar ag show ?thesis by simp
qed

end
